theory Spec2Isabelle
  imports Main "HOL-Library.Log_Nat" "HOL-Library.Signed_Division" "HOL-Library.Word"
begin

section \<open>The operating system as logcat sees it\<close>

text \<open>
  logcat.cpp talks to the kernel through \<^verbatim>\<open>open\<close>, \<^verbatim>\<open>close\<close>, \<^verbatim>\<open>rename\<close>,
  \<^verbatim>\<open>fstat\<close> and \<^verbatim>\<open>write\<close>, and to liblog through \<^verbatim>\<open>android_log_printLogLine\<close>.
  The world below is the part of the kernel those calls can observe: a directory
  (path to inode), the inode contents, the descriptor table, \<^verbatim>\<open>errno\<close>, and what was
  sent to stderr and stdout. A call returns the new world; the value the C caller gets is
  left in \<open>retval\<close> (as the error code is in \<open>errno\<close>). Every call is appended to
  \<open>trace\<close> with its result, so the order of the program's effects can be stated. \<open>fault n c\<close> is the environment's choice
  to let the call \<open>c\<close>, issued as the \<open>n\<close>-th call, fail with an errno (permissions, a full
  disk, a closed pipe); a missing file and a bad descriptor fail by themselves. \<open>nofile\<close>
  is the limit on open descriptors (\<^verbatim>\<open>RLIMIT_NOFILE\<close>): a descriptor is below it.
\<close>

type_synonym path = string
type_synonym bytes = "char list"

datatype call =
    Close int
  | Rename path path
  | Open path
  | Write int bytes
  | PrintLogLine int bytes

datatype ret = Err int | Ok int

datatype err_line = Perror string int | Fprintf string | ShowHelp

record world =
  names :: "path \<Rightarrow> nat option"
  inodes :: "nat \<Rightarrow> bytes"
  fds :: "int \<Rightarrow> nat option"
  next_inode :: nat
  nofile :: nat
  retval :: int
  errno :: int
  trace :: "(call \<times> ret) list"
  fault :: "nat \<Rightarrow> call \<Rightarrow> int option"
  stderr_lines :: "err_line list"
  stdout_text :: bytes

text \<open>errno values of \<^verbatim>\<open><errno.h>\<close> on Linux.\<close>

definition ENOENT :: int where "ENOENT = 2"
definition EIO :: int where "EIO = 5"
definition EBADF :: int where "EBADF = 9"
definition EACCES :: int where "EACCES = 13"
definition EMFILE :: int where "EMFILE = 24"
definition EAGAIN :: int where "EAGAIN = 11"
definition EINVAL :: int where "EINVAL = 22"

text \<open>A failed call returns \<open>-1\<close> and sets \<open>errno\<close>.\<close>

definition failc :: "call \<Rightarrow> int \<Rightarrow> world \<Rightarrow> world" where
  "failc c e w = w\<lparr>retval := -1, errno := e, trace := trace w @ [(c, Err e)]\<rparr>"

definition okc :: "call \<Rightarrow> int \<Rightarrow> world \<Rightarrow> world" where
  "okc c v w = w\<lparr>retval := v, trace := trace w @ [(c, Ok v)]\<rparr>"

definition sys_close :: "int \<Rightarrow> world \<Rightarrow> world" where
  "sys_close fd w =
     (case fds w fd of
        None \<Rightarrow> failc (Close fd) EBADF w
      | Some i \<Rightarrow> okc (Close fd) 0 (w\<lparr>fds := (fds w)(fd := None)\<rparr>))"

definition sys_rename :: "path \<Rightarrow> path \<Rightarrow> world \<Rightarrow> world" where
  "sys_rename a b w =
     (case fault w (length (trace w)) (Rename a b) of
        Some e \<Rightarrow> failc (Rename a b) e w
      | None \<Rightarrow>
          (case names w a of
             None \<Rightarrow> failc (Rename a b) ENOENT w
           | Some i \<Rightarrow> okc (Rename a b) 0 (w\<lparr>names := ((names w)(a := None))(b \<mapsto> i)\<rparr>)))"

text \<open>The descriptor a call gets that opens a file: the lowest one that is not open,
  none when every descriptor below the limit is open.\<close>

definition lowest_free :: "world \<Rightarrow> nat option" where
  "lowest_free w = find (\<lambda>n. fds w (int n) = None) [0..<nofile w]"

text \<open>\<^verbatim>\<open>open(pathname, O_WRONLY | O_APPEND | O_CREAT, S_IRUSR | S_IWUSR)\<close>: an
  existing file is opened as it is (nothing is truncated), a missing one is created
  empty, on an inode that was never used (\<open>next_inode\<close>). Without a free descriptor the
  call fails with \<^verbatim>\<open>EMFILE\<close> and creates nothing.\<close>

definition sys_open_append_creat :: "path \<Rightarrow> world \<Rightarrow> world" where
  "sys_open_append_creat p w =
     (case fault w (length (trace w)) (Open p) of
        Some e \<Rightarrow> failc (Open p) e w
      | None \<Rightarrow>
          (case lowest_free w of
             None \<Rightarrow> failc (Open p) EMFILE w
           | Some fd \<Rightarrow>
               (case names w p of
                  Some i \<Rightarrow> okc (Open p) (int fd) (w\<lparr>fds := (fds w)(int fd \<mapsto> i)\<rparr>)
                | None \<Rightarrow>
                    okc (Open p) (int fd)
                      (w\<lparr>names := (names w)(p \<mapsto> next_inode w),
                         inodes := (inodes w)(next_inode w := []),
                         fds := (fds w)(int fd \<mapsto> next_inode w),
                         next_inode := Suc (next_inode w)\<rparr>))))"

text \<open>A write appends (every descriptor logcat writes to is its standard output or was
  opened with \<^verbatim>\<open>O_APPEND\<close>). The call \<open>c\<close> is what the trace records: \<open>Write\<close> for
  a \<^verbatim>\<open>write\<close> of logcat.cpp itself, \<open>PrintLogLine\<close> for the write liblog does.\<close>

definition append_fd :: "call \<Rightarrow> int \<Rightarrow> bytes \<Rightarrow> world \<Rightarrow> world" where
  "append_fd c fd bs w =
     (case fault w (length (trace w)) c of
        Some e \<Rightarrow> failc c e w
      | None \<Rightarrow>
          (case fds w fd of
             None \<Rightarrow> failc c EBADF w
           | Some i \<Rightarrow>
               okc c (int (length bs)) (w\<lparr>inodes := (inodes w)(i := inodes w i @ bs)\<rparr>)))"

definition sys_write :: "int \<Rightarrow> bytes \<Rightarrow> world \<Rightarrow> world" where
  "sys_write fd bs w = append_fd (Write fd bs) fd bs w"

text \<open>\<^verbatim>\<open>fstat(fd, &statbuf); statbuf.st_size\<close>. The source ignores the result of
  \<^verbatim>\<open>fstat\<close>; it is only called on a descriptor that \<^verbatim>\<open>open\<close> has just returned.\<close>

definition st_size :: "int \<Rightarrow> world \<Rightarrow> int" where
  "st_size fd w = (case fds w fd of None \<Rightarrow> 0 | Some i \<Rightarrow> int (length (inodes w i)))"

definition perror :: "string \<Rightarrow> world \<Rightarrow> world" where
  "perror m w = w\<lparr>stderr_lines := stderr_lines w @ [Perror m (errno w)]\<rparr>"

definition fprintf_stderr :: "string \<Rightarrow> world \<Rightarrow> world" where
  "fprintf_stderr m w = w\<lparr>stderr_lines := stderr_lines w @ [Fprintf m]\<rparr>"

definition show_help :: "world \<Rightarrow> world" where
  "show_help w = w\<lparr>stderr_lines := stderr_lines w @ [ShowHelp]\<rparr>"

section \<open>Devices and the program state\<close>

text \<open>\<^verbatim>\<open>struct log_device_t\<close>. The \<^verbatim>\<open>next\<close> pointer is the list the devices are kept
  in; the two handles of liblog are opaque and play no part below.\<close>

record log_device_t =
  device :: string
  binary :: bool
  printed :: bool

definition new_log_device_t :: "string \<Rightarrow> bool \<Rightarrow> log_device_t" where
  "new_log_device_t d b = \<lparr>device = d, binary = b, printed = False\<rparr>"

text \<open>A pointer to a device points into the list \<^verbatim>\<open>devices\<close> or at the local
  \<^verbatim>\<open>unexpected\<close> of \<^verbatim>\<open>main\<close>.\<close>

datatype dref = Registered nat | Unexpected

text \<open>The globals of \<^verbatim>\<open>namespace android\<close>, the locals of \<^verbatim>\<open>main\<close> that the read
  loop uses (\<^verbatim>\<open>devices\<close>, \<^verbatim>\<open>unexpected\<close>, and \<^verbatim>\<open>dev\<close> as \<open>cur_dev\<close>, where
  \<open>None\<close> is \<^verbatim>\<open>NULL\<close>), and the world. \<^verbatim>\<open>g_outByteCount\<close> is an \<^verbatim>\<open>off_t\<close>; it
  is an unbounded integer here (it only grows from a file size by the lengths of the
  lines written, and signed overflow is undefined in C++).\<close>

record state =
  g_outputFileName :: "string option"
  g_logRotateSizeKBytes :: int
  g_maxRotatedLogs :: int
  g_outFD :: int
  g_outByteCount :: int
  g_printBinary :: int
  g_devCount :: int
  devices :: "log_device_t list"
  unexpected :: log_device_t
  cur_dev :: "dref option"
  world :: world

fun deref :: "state \<Rightarrow> dref \<Rightarrow> log_device_t" where
  "deref s (Registered i) = devices s ! i"
| "deref s Unexpected = unexpected s"

fun assign :: "dref \<Rightarrow> log_device_t \<Rightarrow> state \<Rightarrow> state" where
  "assign (Registered i) x s = s\<lparr>devices := (devices s)[i := x]\<rparr>"
| "assign Unexpected x s = s\<lparr>unexpected := x\<rparr>"

definition on_world :: "(world \<Rightarrow> world) \<Rightarrow> state \<Rightarrow> state" where
  "on_world f s = s\<lparr>world := f (world s)\<rparr>"

text \<open>A function of the program either returns or calls \<^verbatim>\<open>exit(code)\<close>.\<close>

datatype 'a run = Exit int 'a | Done 'a

fun run_state :: "'a run \<Rightarrow> 'a" where
  "run_state (Exit c s) = s"
| "run_state (Done s) = s"

definition DEFAULT_LOG_ROTATE_SIZE_KBYTES :: int where "DEFAULT_LOG_ROTATE_SIZE_KBYTES = 16"
definition DEFAULT_MAX_ROTATED_LOGS :: int where "DEFAULT_MAX_ROTATED_LOGS = 4"
definition STDOUT_FILENO :: int where "STDOUT_FILENO = 1"
definition EXIT_FAILURE :: int where "EXIT_FAILURE = 1"

text \<open>The state as \<^verbatim>\<open>main\<close> has it before the option loop.\<close>

definition init_state :: "world \<Rightarrow> state" where
  "init_state w =
     \<lparr>g_outputFileName = None, g_logRotateSizeKBytes = 0,
      g_maxRotatedLogs = DEFAULT_MAX_ROTATED_LOGS, g_outFD = -1, g_outByteCount = 0,
      g_printBinary = 0, g_devCount = 0, devices = [],
      unexpected = new_log_device_t ''unexpected'' False, cur_dev = None, world = w\<rparr>"

section \<open>rotateLogs\<close>

definition openLogFile :: "path \<Rightarrow> world \<Rightarrow> world" where
  "openLogFile pathname w = sys_open_append_creat pathname w"

text \<open>\<^verbatim>\<open>(g_maxRotatedLogs > 0) ? (int) (floor(log10(g_maxRotatedLogs) + 1)) : 0\<close>, with
  the logarithm of the reals (\<open>floorlog b a\<close> is \<open>\<lfloor>log b a\<rfloor> + 1\<close> for \<open>a > 0\<close>).\<close>

definition maxRotationCountDigits :: "int \<Rightarrow> nat" where
  "maxRotationCountDigits k = (if k > 0 then floorlog 10 (nat k) else 0)"

text \<open>\<^verbatim>\<open>printf("%.*d", p, v)\<close>: the decimal digits of \<open>v\<close>, at least \<open>p\<close> of them, zeros
  in front; no digit at all for the value 0 with precision 0.\<close>

definition digit_char :: "nat \<Rightarrow> char" where
  "digit_char d = ''0123456789'' ! d"

fun digits10 :: "nat \<Rightarrow> string" where
  "digits10 n = (if n < 10 then [digit_char n] else digits10 (n div 10) @ [digit_char (n mod 10)])"

declare digits10.simps [simp del]

definition fmt_prec_d :: "nat \<Rightarrow> int \<Rightarrow> string" where
  "fmt_prec_d p v =
     (let ds = (if v = 0 then [] else digits10 (nat \<bar>v\<bar>));
          body = replicate (p - length ds) (CHR ''0'') @ ds
      in if v < 0 then CHR ''-'' # body else body)"

text \<open>One turn of the loop of \<^verbatim>\<open>rotateLogs\<close>.\<close>

definition rotate_step :: "string \<Rightarrow> nat \<Rightarrow> int \<Rightarrow> world \<Rightarrow> world" where
  "rotate_step nm digits i w =
     (let file1 = nm @ ''.'' @ fmt_prec_d digits i;
          file0 = (if i - 1 = 0 then nm else nm @ ''.'' @ fmt_prec_d digits (i - 1));
          w1 = sys_rename file0 file1 w
      in if retval w1 < 0 \<and> errno w1 \<noteq> ENOENT then perror ''while rotating log files'' w1 else w1)"

function rotate_loop :: "string \<Rightarrow> nat \<Rightarrow> int \<Rightarrow> world \<Rightarrow> world" where
  "rotate_loop nm digits i w =
     (if i > 0 then rotate_loop nm digits (i - 1) (rotate_step nm digits i w) else w)"
  by pat_completeness auto
termination
  by (relation "measure (\<lambda>(nm, digits, i, w). nat i)") auto

declare rotate_loop.simps [simp del]

definition rotateLogs :: "state \<Rightarrow> state run" where
  "rotateLogs s =
     (case g_outputFileName s of
        None \<Rightarrow> Done s
      | Some nm \<Rightarrow>
          (let w1 = sys_close (g_outFD s) (world s);
               digits = maxRotationCountDigits (g_maxRotatedLogs s);
               w2 = rotate_loop nm digits (g_maxRotatedLogs s) w1;
               w3 = openLogFile nm w2;
               s3 = s\<lparr>g_outFD := retval w3, world := w3\<rparr>
           in if g_outFD s3 < 0
              then Exit (-1) (on_world (perror ''couldn't open output file'') s3)
              else Done (s3\<lparr>g_outByteCount := 0\<rparr>)))"

section \<open>setupOutput and the check before it\<close>

definition setupOutput :: "state \<Rightarrow> state run" where
  "setupOutput s =
     (case g_outputFileName s of
        None \<Rightarrow> Done (s\<lparr>g_outFD := STDOUT_FILENO\<rparr>)
      | Some nm \<Rightarrow>
          (let w1 = openLogFile nm (world s);
               s1 = s\<lparr>g_outFD := retval w1, world := w1\<rparr>
           in if g_outFD s1 < 0
              then Exit (-1) (on_world (perror ''couldn't open output file'') s1)
              else Done (s1\<lparr>g_outByteCount := st_size (g_outFD s1) w1\<rparr>)))"

text \<open>The statements of \<^verbatim>\<open>main\<close> between the option loop and the choice of the
  print format: \<^verbatim>\<open>-r\<close> without \<^verbatim>\<open>-f\<close> is refused, then the output is set up.\<close>

definition main_check_and_setupOutput :: "state \<Rightarrow> state run" where
  "main_check_and_setupOutput s =
     (if g_logRotateSizeKBytes s \<noteq> 0 \<and> g_outputFileName s = None
      then Exit (-1) (on_world show_help
                        (on_world (fprintf_stderr (''-r requires -f as well'' @ [CHR 0x0A])) s))
      else setupOutput s)"

section \<open>Records and liblog\<close>

text \<open>\<^verbatim>\<open>struct log_msg\<close> of liblog, as far as logcat.cpp looks at it: \<^verbatim>\<open>id()\<close>,
  \<^verbatim>\<open>len()\<close> and the bytes of the structure from its first byte on (the logger entry
  header, whose first field is the payload length, then the payload).\<close>

record log_msg =
  msg_id :: int
  msg_len :: nat
  msg_buf :: bytes

text \<open>The functions and constants of liblog that logcat.cpp calls, as parameters:
  the buffer ids and names, the two decoders (\<open>None\<close> for a negative return), the filter
  \<^verbatim>\<open>android_log_shouldPrintLine(g_logformat, entry.tag, entry.priority)\<close> and the text
  \<^verbatim>\<open>android_log_printLogLine\<close> formats for an entry under \<^verbatim>\<open>g_logformat\<close>.\<close>

record 'e liblog =
  LOG_ID_MIN :: int
  LOG_ID_MAX :: int
  LOG_ID_EVENTS :: int
  LOG_ID_SYSTEM :: int
  LOG_ID_CRASH :: int
  android_name_to_log_id :: "string \<Rightarrow> int"
  android_log_id_to_name :: "int \<Rightarrow> string"
  android_log_processLogBuffer :: "log_msg \<Rightarrow> 'e option"
  android_log_processBinaryLogBuffer :: "log_msg \<Rightarrow> 'e option"
  android_log_shouldPrintLine :: "'e \<Rightarrow> bool"
  android_log_formatLogLine :: "'e \<Rightarrow> bytes"

text \<open>Modelled from the spec: \<^verbatim>\<open>android_log_printLogLine\<close> is liblog's and not part of
  logcat.cpp; the formatting collaborator is to "render entry to destination, returning
  bytes written". It writes the formatted line to the descriptor and returns the number
  of bytes, or a negative value when the write fails.\<close>

definition android_log_printLogLine :: "'e liblog \<Rightarrow> int \<Rightarrow> 'e \<Rightarrow> world \<Rightarrow> world" where
  "android_log_printLogLine L fd entry w =
     (let line = android_log_formatLogLine L entry
      in append_fd (PrintLogLine fd line) fd line w)"

section \<open>printBinary, processBuffer, maybePrintStart\<close>

text \<open>\<^verbatim>\<open>TEMP_FAILURE_RETRY\<close> repeats the write while it is interrupted (\<^verbatim>\<open>EINTR\<close>);
  \<open>fault\<close> gives the status of the call once it is no longer interrupted, so the macro
  is the call. Its result is dropped, as in the source.\<close>

definition printBinary :: "log_msg \<Rightarrow> state \<Rightarrow> state" where
  "printBinary buf s =
     (let size = msg_len buf
      in s\<lparr>world := sys_write (g_outFD s) (take size (msg_buf buf)) (world s)\<rparr>)"

text \<open>\<open>d\<close> is the pointer \<^verbatim>\<open>dev\<close>. The event tag map that the source opens once
  for binary devices belongs to the decoder, which is a parameter.\<close>

definition processBuffer :: "'e liblog \<Rightarrow> dref \<Rightarrow> log_msg \<Rightarrow> state \<Rightarrow> state run" where
  "processBuffer L d buf s =
     (case (if binary (deref s d) then android_log_processBinaryLogBuffer L buf
            else android_log_processLogBuffer L buf) of
        None \<Rightarrow> Done s
      | Some entry \<Rightarrow>
          (let s0 = (if android_log_shouldPrintLine L entry
                     then s\<lparr>world := android_log_printLogLine L (g_outFD s) entry (world s)\<rparr>
                     else s);
               bytesWritten = (if android_log_shouldPrintLine L entry then retval (world s0) else 0)
           in if bytesWritten < 0
              then Exit (-1) (on_world (perror ''output error'') s0)
              else
                (let s1 = s0\<lparr>g_outByteCount := g_outByteCount s0 + bytesWritten\<rparr>
                 in if g_logRotateSizeKBytes s1 > 0
                       \<and> g_outByteCount s1 sdiv 1024 \<ge> g_logRotateSizeKBytes s1
                    then rotateLogs s1
                    else Done s1)))"

text \<open>\<^verbatim>\<open>snprintf(buf, sizeof(buf), "--------- %s %s\n", ...)\<close> with \<^verbatim>\<open>char buf[1024]\<close>:
  at most 1023 characters are kept.\<close>

definition banner :: "bool \<Rightarrow> string \<Rightarrow> bytes" where
  "banner was_printed nm =
     take 1023 (''--------- '' @ (if was_printed then ''switch to'' else ''beginning of'')
                @ '' '' @ nm @ [CHR 0x0A])"

definition maybePrintStart :: "dref \<Rightarrow> bool \<Rightarrow> state \<Rightarrow> state run" where
  "maybePrintStart d printDividers s =
     (if \<not> printed (deref s d) \<or> printDividers then
        (if g_devCount s > 1 \<and> g_printBinary s = 0 then
           (let s1 = s\<lparr>world := sys_write (g_outFD s)
                                  (banner (printed (deref s d)) (device (deref s d))) (world s)\<rparr>
            in if retval (world s1) < 0
               then Exit (-1) (on_world (perror ''output error'') s1)
               else Done (assign d ((deref s1 d)\<lparr>printed := True\<rparr>) s1))
         else Done (assign d ((deref s d)\<lparr>printed := True\<rparr>) s))
      else Done s)"

section \<open>The read loop of main\<close>

text \<open>\<^verbatim>\<open>for (d = devices; d; d = d->next) if (android_name_to_log_id(d->device) == id) break;\<close>
  gives the first device of the list whose name maps to the id, its position here.\<close>

fun find_device :: "(string \<Rightarrow> int) \<Rightarrow> int \<Rightarrow> log_device_t list \<Rightarrow> nat option" where
  "find_device f lid [] = None"
| "find_device f lid (d # ds) =
     (if f (device d) = lid then Some 0 else map_option Suc (find_device f lid ds))"

text \<open>The device a record is attributed to: the one found, else \<^verbatim>\<open>unexpected\<close>.\<close>

definition resolve_device :: "'e liblog \<Rightarrow> log_msg \<Rightarrow> state \<Rightarrow> dref" where
  "resolve_device L lmsg s =
     (case find_device (android_name_to_log_id L) (msg_id lmsg) (devices s) of
        Some i \<Rightarrow> Registered i
      | None \<Rightarrow> Unexpected)"

text \<open>\<^verbatim>\<open>if (!d) { g_devCount = 2; d = &unexpected; d->binary = log_msg.id() == LOG_ID_EVENTS; }\<close>\<close>

definition note_unexpected :: "'e liblog \<Rightarrow> log_msg \<Rightarrow> state \<Rightarrow> state" where
  "note_unexpected L lmsg s =
     (if resolve_device L lmsg s = Unexpected
      then s\<lparr>g_devCount := 2,
             unexpected := (unexpected s)\<lparr>binary := (msg_id lmsg = LOG_ID_EVENTS L)\<rparr>\<rparr>
      else s)"

datatype 's loop = Stop int 's | Continue 's

fun loop_state :: "'s loop \<Rightarrow> 's" where
  "loop_state (Stop c s) = s"
| "loop_state (Continue s) = s"

text \<open>One turn of \<^verbatim>\<open>while (1)\<close>, for the value \<open>ret\<close> and the record that
  \<^verbatim>\<open>android_logger_list_read\<close> returned. \<open>Stop c\<close> is the end of the process with
  status \<open>c\<close>: an \<^verbatim>\<open>exit(c)\<close>, or the \<^verbatim>\<open>break\<close> that leads to \<^verbatim>\<open>return 0\<close>.\<close>

definition main_loop_body ::
  "'e liblog \<Rightarrow> bool \<Rightarrow> int \<Rightarrow> log_msg \<Rightarrow> state \<Rightarrow> state loop" where
  "main_loop_body L printDividers ret lmsg s =
     (if ret = 0 then
        Stop EXIT_FAILURE (on_world (fprintf_stderr (''read: unexpected EOF!'' @ [CHR 0x0A])) s)
      else if ret < 0 then
        (if ret = - EAGAIN then Stop 0 s
         else if ret = - EIO then
           Stop EXIT_FAILURE (on_world (fprintf_stderr (''read: unexpected EOF!'' @ [CHR 0x0A])) s)
         else if ret = - EINVAL then
           Stop EXIT_FAILURE (on_world (fprintf_stderr (''read: unexpected length.'' @ [CHR 0x0A])) s)
         else Stop EXIT_FAILURE (on_world (perror ''logcat read failure'') s))
      else
        (let d = resolve_device L lmsg s;
             s1 = note_unexpected L lmsg s;
             r2 = (if cur_dev s1 \<noteq> Some d
                   then maybePrintStart d printDividers (s1\<lparr>cur_dev := Some d\<rparr>)
                   else Done s1)
         in case r2 of
              Exit c s2 \<Rightarrow> Stop c s2
            | Done s2 \<Rightarrow>
                (if g_printBinary s2 \<noteq> 0
                 then Continue (printBinary lmsg s2)
                 else (case processBuffer L d lmsg s2 of
                         Exit c s3 \<Rightarrow> Stop c s3
                       | Done s3 \<Rightarrow> Continue s3))))"

text \<open>The loop over the answers of \<^verbatim>\<open>android_logger_list_read\<close>, in the order the
  transport gives them. When the answers so far are used up the process is inside the
  next read (\<open>Reading\<close>): in blocking mode it stays there until a record arrives or a
  signal ends it. Signals are not part of the model.\<close>

datatype outcome = Exited int state | Reading state

fun main_loop :: "'e liblog \<Rightarrow> bool \<Rightarrow> (int \<times> log_msg) list \<Rightarrow> state \<Rightarrow> outcome" where
  "main_loop L printDividers [] s = Reading s"
| "main_loop L printDividers (r # rest) s =
     (case main_loop_body L printDividers (fst r) (snd r) s of
        Stop c s' \<Rightarrow> Exited c s'
      | Continue s' \<Rightarrow> main_loop L printDividers rest s')"

fun final_state :: "outcome \<Rightarrow> state" where
  "final_state (Exited c s) = s"
| "final_state (Reading s) = s"

section \<open>The device list: -b and the default\<close>

text \<open>The loop of \<^verbatim>\<open>-b all\<close> over the buffer ids, appending at the tail.\<close>

function select_all_loop :: "'e liblog \<Rightarrow> int \<Rightarrow> state \<Rightarrow> state" where
  "select_all_loop L i s =
     (if i < LOG_ID_MAX L then
        (let name = android_log_id_to_name L i;
             log_id = android_name_to_log_id L name
         in if log_id \<noteq> i then select_all_loop L (i + 1) s
            else select_all_loop L (i + 1)
                   (s\<lparr>devices := devices s @ [new_log_device_t name (name = ''events'')],
                      g_devCount := g_devCount s + 1\<rparr>))
      else s)"
  by pat_completeness auto
termination
  by (relation "measure (\<lambda>(L, i, s). nat (LOG_ID_MAX L - i))") auto

declare select_all_loop.simps [simp del]

text \<open>\<^verbatim>\<open>case 'b'\<close> of the option loop.\<close>

definition opt_b :: "'e liblog \<Rightarrow> string \<Rightarrow> state \<Rightarrow> state" where
  "opt_b L optarg s =
     (if optarg = ''all''
      then select_all_loop L (LOG_ID_MIN L) (s\<lparr>devices := [], g_devCount := 0\<rparr>)
      else s\<lparr>devices := devices s @ [new_log_device_t optarg (optarg = ''events'')],
             g_devCount := g_devCount s + 1\<rparr>)"

text \<open>\<^verbatim>\<open>if (!devices) { ... }\<close> after the option loop.\<close>

definition default_devices :: "'e liblog \<Rightarrow> state \<Rightarrow> state" where
  "default_devices L s =
     (if devices s = [] then
        (let s1 = s\<lparr>devices := [new_log_device_t ''main'' False], g_devCount := 1\<rparr>;
             s2 = (if android_name_to_log_id L ''system'' = LOG_ID_SYSTEM L
                   then s1\<lparr>devices := devices s1 @ [new_log_device_t ''system'' False],
                           g_devCount := g_devCount s1 + 1\<rparr>
                   else s1)
         in if android_name_to_log_id L ''crash'' = LOG_ID_CRASH L
            then s2\<lparr>devices := devices s2 @ [new_log_device_t ''crash'' False],
                    g_devCount := g_devCount s2 + 1\<rparr>
            else s2)
      else s)"

text \<open>The device list after the \<^verbatim>\<open>-b\<close> options of the command line, in their order,
  and the default.\<close>

definition register_devices :: "'e liblog \<Rightarrow> string list \<Rightarrow> state \<Rightarrow> state" where
  "register_devices L bs s = default_devices L (fold (opt_b L) bs s)"

section \<open>The statistics and prune list query\<close>

text \<open>C strings and the functions of the C library the query uses. \<^verbatim>\<open>atol\<close> is
  \<^verbatim>\<open>strtol(s, NULL, 10)\<close>: white space, an optional sign, decimal digits, the value
  kept within the range of \<^verbatim>\<open>long\<close> (64 bits).\<close>

definition NUL :: char where "NUL = CHR 0x00"

definition c_str :: "bytes \<Rightarrow> string" where
  "c_str b = takeWhile (\<lambda>c. c \<noteq> NUL) b"

definition isspace_c :: "char \<Rightarrow> bool" where
  "isspace_c c = (c = CHR '' '' \<or> (9 \<le> (of_char c :: nat) \<and> (of_char c :: nat) \<le> 13))"

definition isdigit_c :: "char \<Rightarrow> bool" where
  "isdigit_c c = (48 \<le> (of_char c :: nat) \<and> (of_char c :: nat) \<le> 57)"

fun digits_value :: "int \<Rightarrow> string \<Rightarrow> int" where
  "digits_value acc [] = acc"
| "digits_value acc (c # cs) =
     (if isdigit_c c then digits_value (acc * 10 + (of_char c - 48)) cs else acc)"

definition LONG_MAX :: int where "LONG_MAX = 2 ^ 63 - 1"
definition LONG_MIN :: int where "LONG_MIN = - (2 ^ 63)"

definition atol :: "string \<Rightarrow> int" where
  "atol s =
     (let v = (case dropWhile isspace_c s of
                 [] \<Rightarrow> 0
               | c # cs \<Rightarrow>
                   if c = CHR ''-'' then - digits_value 0 cs
                   else if c = CHR ''+'' then digits_value 0 cs
                   else digits_value 0 (c # cs))
      in max LONG_MIN (min LONG_MAX v))"

text \<open>\<^verbatim>\<open>size_t\<close> is 64 bits wide. \<^verbatim>\<open>android_logger_get_prune_list\<close> and
  \<^verbatim>\<open>android_logger_get_statistics\<close> are the log service's: \<open>q sv n\<close> is the content of
  the \<open>n\<close> bytes of \<^verbatim>\<open>buf\<close> after the call in the service state \<open>sv\<close>, and the next
  state. \<open>fit\<close> keeps exactly \<open>n\<close> bytes of it. \<open>alloc n\<close> tells whether
  \<^verbatim>\<open>new char [n]\<close> gives an array. When it gives none it throws \<^verbatim>\<open>std::bad_alloc\<close>
  (it is the plain \<^verbatim>\<open>new\<close>, which never yields \<^verbatim>\<open>NULL\<close>); nothing in logcat.cpp
  catches the exception, so the process is aborted.\<close>

type_synonym size_t = "64 word"

definition fit :: "nat \<Rightarrow> bytes \<Rightarrow> bytes" where
  "fit n b = take n b @ replicate (n - length b) NUL"

text \<open>The body of the \<^verbatim>\<open>for\<close> loop up to \<^verbatim>\<open>size_t ret = atol(buf) + 1\<close>: the buffer
  with its last byte set to NUL, and \<open>ret\<close>, the sum converted to \<^verbatim>\<open>size_t\<close> (a negative
  sum wraps around). For the count \<^verbatim>\<open>LONG_MAX\<close> the sum overflows a \<^verbatim>\<open>long\<close>; the value
  here is the one of two's complement.\<close>

definition terminated :: "size_t \<Rightarrow> bytes \<Rightarrow> bytes" where
  "terminated len b = (fit (unat len) b)[unat len - 1 := NUL]"

definition declared_size :: "size_t \<Rightarrow> bytes \<Rightarrow> size_t" where
  "declared_size len b = word_of_int (atol (c_str (terminated len b))) + 1"

text \<open>The pointer \<^verbatim>\<open>buf\<close> after the loop: \<^verbatim>\<open>NULL\<close>, an array with its content, or
  a pointer that points at no array (never assigned, or the array deleted). The last is what
  the source leaves when the retry budget runs out: the increment \<^verbatim>\<open>delete [] buf, --retry\<close>
  has deleted the array, and the condition \<^verbatim>\<open>(retry >= 0) && ((buf = new char [len]))\<close>
  fails on \<^verbatim>\<open>retry >= 0\<close> before anything is assigned. It is also what \<^verbatim>\<open>buf\<close> is when
  \<^verbatim>\<open>new\<close> throws, as the assignment does not take place.\<close>

datatype bufptr = Null | Array bytes | Dangling

text \<open>The result of the loop: \<^verbatim>\<open>buf\<close>, \<^verbatim>\<open>len\<close>, the service state, the sizes of the
  buffers the service was asked with, in order, and whether the loop was left by
  \<^verbatim>\<open>std::bad_alloc\<close>.\<close>

record 'sv query_result =
  q_buf :: bufptr
  q_len :: size_t
  q_service :: 'sv
  q_attempts :: "size_t list"
  q_bad_alloc :: bool

function query_loop ::
  "('sv \<Rightarrow> nat \<Rightarrow> bytes \<times> 'sv) \<Rightarrow> (size_t \<Rightarrow> bool) \<Rightarrow> int \<Rightarrow> size_t \<Rightarrow> 'sv \<Rightarrow> size_t list
     \<Rightarrow> 'sv query_result" where
  "query_loop q alloc retry len sv att =
     (if retry \<ge> 0 then
        (if alloc len then
           (let b = fst (q sv (unat len));
                sv1 = snd (q sv (unat len));
                buf = terminated len b;
                ret = declared_size len b
            in if ret < 4
               then \<lparr>q_buf = Null, q_len = len, q_service = sv1, q_attempts = att @ [len],
                      q_bad_alloc = False\<rparr>
               else
                 (let check = (ret \<le> len)
                  in if check
                     then \<lparr>q_buf = Array buf, q_len = ret, q_service = sv1, q_attempts = att @ [len],
                            q_bad_alloc = False\<rparr>
                     else query_loop q alloc (retry - 1) ret sv1 (att @ [len])))
         else \<lparr>q_buf = Dangling, q_len = len, q_service = sv, q_attempts = att, q_bad_alloc = True\<rparr>)
      else \<lparr>q_buf = Dangling, q_len = len, q_service = sv, q_attempts = att, q_bad_alloc = False\<rparr>)"
  by pat_completeness auto
termination
  by (relation "measure (\<lambda>(q, alloc, retry, len, sv, att). nat (retry + 1))") auto

declare query_loop.simps [simp del]

text \<open>\<^verbatim>\<open>while (isdigit(*cp)) ++cp;\<close> from the start of the buffer.\<close>

fun skip_digits :: "bytes \<Rightarrow> bytes" where
  "skip_digits [] = []"
| "skip_digits (c # cs) = (if isdigit_c c then skip_digits cs else c # cs)"

text \<open>What follows the loop for an array \<^verbatim>\<open>buf\<close>: the text that
  \<^verbatim>\<open>printf("%s", cp)\<close> prints.\<close>

definition query_text :: "bytes \<Rightarrow> size_t \<Rightarrow> string" where
  "query_text buf len =
     (let b1 = buf[unat len - 1 := NUL];
          truncated = (b1 ! (unat len - 2) \<noteq> CHR 0x0C);
          b2 = (if \<not> truncated then b1[unat len - 2 := NUL] else b1);
          rest = (if \<not> truncated
                  then (case skip_digits b2 of
                          [] \<Rightarrow> []
                        | c # cs \<Rightarrow> if c = CHR 0x0A then cs else c # cs)
                  else b2)
      in c_str rest)"

text \<open>The block \<^verbatim>\<open>if (printStatistics || getPruneList) { ... }\<close> of \<^verbatim>\<open>main\<close>. \<open>q\<close> is
  the query that \<^verbatim>\<open>getPruneList\<close> selects. The block ends the process: with \<^verbatim>\<open>exit\<close>,
  or aborted by the exception that nothing catches; with the array deleted and the budget
  used up it reads and deletes an array that is deleted already, which C++ leaves
  undefined.\<close>

datatype admin_end = Ended int world | Aborted | Undefined_behaviour

definition admin_query ::
  "('sv \<Rightarrow> nat \<Rightarrow> bytes \<times> 'sv) \<Rightarrow> (size_t \<Rightarrow> bool) \<Rightarrow> 'sv \<Rightarrow> world \<Rightarrow> admin_end" where
  "admin_query q alloc sv w =
     (let r = query_loop q alloc 32 8192 sv []
      in if q_bad_alloc r then Aborted
         else
           (case q_buf r of
              Null \<Rightarrow> Ended EXIT_FAILURE (perror ''failed to read data'' w)
            | Array buf \<Rightarrow> Ended 0 (w\<lparr>stdout_text := stdout_text w @ query_text buf (q_len r)\<rparr>)
            | Dangling \<Rightarrow> Undefined_behaviour))"

section \<open>What the rotation is to do\<close>

text \<open>The names the rotation is to use: the backup \<open>i\<close> of \<open>nm\<close> is \<open>nm.i\<close>, the index
  \<open>i\<close> written in decimal with zeros in front up to the number of digits of the largest
  index \<open>k\<close>; the backup 0 is the file itself.\<close>

definition backup_name :: "string \<Rightarrow> int \<Rightarrow> int \<Rightarrow> string" where
  "backup_name nm k i =
     (if i = 0 then nm
      else nm @ ''.'' @ replicate (length (digits10 (nat k)) - length (digits10 (nat i))) (CHR ''0'')
           @ digits10 (nat i))"


text \<open>What is reported for a rename: nothing when it succeeds or the file is missing.\<close>

fun rename_report :: "call \<times> ret \<Rightarrow> err_line list" where
  "rename_report (Rename a b, Err e) = (if e \<noteq> ENOENT then [Perror ''while rotating log files'' e] else [])"
| "rename_report (c, r) = []"

definition rename_reports :: "(call \<times> ret) list \<Rightarrow> err_line list" where
  "rename_reports evs = concat (map rename_report evs)"

section \<open>Concrete inputs\<close>

text \<open>A world with the three standard streams, the file \<open>out\<close> open for output on
  descriptor 3 and a first backup \<open>out.01\<close>; at most 1024 descriptors are open at a time,
  and nothing fails by the environment's choice.\<close>

definition world_out :: world where
  "world_out =
     \<lparr>names = [''out'' \<mapsto> 3, ''out.01'' \<mapsto> 4],
      inodes = (\<lambda>i. [])(3 := ''AAAA'', 4 := ''BBBB''),
      fds = [0 \<mapsto> 0, 1 \<mapsto> 1, 2 \<mapsto> 2, 3 \<mapsto> 3],
      next_inode = 5, nofile = 1024, retval = 0, errno = 0, trace = [], fault = (\<lambda>n c. None),
      stderr_lines = [], stdout_text = []\<rparr>"

text \<open>\<^verbatim>\<open>logcat -f out -r 1 -n 10\<close> with 1020 bytes in \<open>out\<close> so far.\<close>

definition s_rot :: state where
  "s_rot = (init_state world_out)\<lparr>g_outputFileName := Some ''out'', g_logRotateSizeKBytes := 1,
      g_maxRotatedLogs := 10, g_outFD := 3, g_outByteCount := 1020\<rparr>"


text \<open>\<^verbatim>\<open>logcat -r 16\<close>: a rotation size and no file.\<close>

definition s_r_without_f :: state where
  "s_r_without_f = (init_state world_out)\<lparr>g_logRotateSizeKBytes := 16\<rparr>"

text \<open>A liblog with the five buffers of \<^verbatim>\<open>log/log.h\<close>; an entry is the text of the
  record, every entry passes the filter, and a line is the text and a newline.\<close>

definition liblog0 :: "string liblog" where
  "liblog0 =
     \<lparr>LOG_ID_MIN = 0, LOG_ID_MAX = 5, LOG_ID_EVENTS = 2, LOG_ID_SYSTEM = 3, LOG_ID_CRASH = 4,
      android_name_to_log_id =
        (\<lambda>n. if n = ''main'' then 0 else if n = ''radio'' then 1 else if n = ''events'' then 2
             else if n = ''system'' then 3 else if n = ''crash'' then 4 else 5),
      android_log_id_to_name =
        (\<lambda>i. if i = 0 then ''main'' else if i = 1 then ''radio'' else if i = 2 then ''events''
             else if i = 3 then ''system'' else if i = 4 then ''crash'' else ''UNKNOWN''),
      android_log_processLogBuffer = (\<lambda>m. Some (msg_buf m)),
      android_log_processBinaryLogBuffer = (\<lambda>m. Some (msg_buf m)),
      android_log_shouldPrintLine = (\<lambda>e. True),
      android_log_formatLogLine = (\<lambda>e. e @ [CHR 0x0A])\<rparr>"

definition msg_main :: log_msg where
  "msg_main = \<lparr>msg_id = 0, msg_len = 5, msg_buf = ''hello''\<rparr>"

text \<open>A record of the \<open>events\<close> buffer; \<^verbatim>\<open>len()\<close> is 3 of its bytes.\<close>

definition msg_events :: log_msg where
  "msg_events = \<lparr>msg_id = 2, msg_len = 3, msg_buf = ''XYZ__''\<rparr>"

text \<open>\<^verbatim>\<open>logcat -b main -b events\<close> writing to descriptor 3.\<close>

definition s_two :: state where
  "s_two = (init_state world_out)\<lparr>devices := [new_log_device_t ''main'' False,
                                               new_log_device_t ''events'' True],
                                   g_devCount := 2, g_outFD := 3\<rparr>"

text \<open>The same with \<^verbatim>\<open>-B -f out -r 1\<close> and 1020 bytes in \<open>out\<close>.\<close>

definition s_bin :: state where
  "s_bin = s_two\<lparr>g_printBinary := 1, g_outputFileName := Some ''out'', g_logRotateSizeKBytes := 1,
                  g_outByteCount := 1020\<rparr>"

text \<open>The calls that are a \<^verbatim>\<open>write\<close> of logcat.cpp itself: banners and raw records.\<close>

fun is_write :: "call \<Rightarrow> bool" where
  "is_write (Write fd bs) = True"
| "is_write c = False"

text \<open>A pointer into the device list points at one of its elements.\<close>

fun valid_ref :: "state \<Rightarrow> dref \<Rightarrow> bool" where
  "valid_ref s (Registered i) = (i < length (devices s))"
| "valid_ref s Unexpected = True"

text \<open>From \<open>s\<close> to \<open>s'\<close> the devices keep their places and names, and a flag
  \<^verbatim>\<open>printed\<close> that is set stays set.\<close>

definition devs_mono :: "state \<Rightarrow> state \<Rightarrow> bool" where
  "devs_mono s s' =
     (length (devices s') = length (devices s)
      \<and> (\<forall>j < length (devices s). device (devices s' ! j) = device (devices s ! j)
              \<and> (printed (devices s ! j) \<longrightarrow> printed (devices s' ! j)))
      \<and> device (unexpected s') = device (unexpected s)
      \<and> (printed (unexpected s) \<longrightarrow> printed (unexpected s'))
      \<and> g_printBinary s' = g_printBinary s)"

text \<open>No event of the list is a \<^verbatim>\<open>write\<close> of logcat.cpp; none writes the bytes \<open>b\<close>.\<close>

definition no_write :: "(call \<times> ret) list \<Rightarrow> bool" where
  "no_write evs = list_all (\<lambda>e. \<not> is_write (fst e)) evs"

definition no_banner :: "bytes \<Rightarrow> (call \<times> ret) list \<Rightarrow> bool" where
  "no_banner b evs = list_all (\<lambda>e. case fst e of Write fd bs \<Rightarrow> bs \<noteq> b | _ \<Rightarrow> True) evs"

text \<open>A record of the \<open>radio\<close> buffer, and \<^verbatim>\<open>logcat -b main\<close> writing to descriptor 3.\<close>

definition msg_radio :: log_msg where
  "msg_radio = \<lparr>msg_id = 1, msg_len = 3, msg_buf = ''rad''\<rparr>"

definition s_one :: state where
  "s_one = (init_state world_out)\<lparr>devices := [new_log_device_t ''main'' False],
                                   g_devCount := 1, g_outFD := 3\<rparr>"

text \<open>\<open>s_two\<close> after a first record of \<open>main\<close>.\<close>

definition s_seen :: state where
  "s_seen = s_two\<lparr>devices := [(new_log_device_t ''main'' False)\<lparr>printed := True\<rparr>,
                                new_log_device_t ''events'' True],
                    cur_dev := Some (Registered 0)\<rparr>"

text \<open>The devices other than \<open>i\<close>, and \<^verbatim>\<open>unexpected\<close>, have another first banner than the
  device \<open>i\<close>.\<close>

definition others_differ :: "state \<Rightarrow> nat \<Rightarrow> bool" where
  "others_differ s i =
     ((\<forall>j < length (devices s). j \<noteq> i \<longrightarrow>
          banner False (device (devices s ! j)) \<noteq> banner False (device (devices s ! i)))
      \<and> banner False (device (unexpected s)) \<noteq> banner False (device (devices s ! i)))"

text \<open>\<open>s_one\<close> after a first record of \<open>main\<close>: the flag is set, no banner was written.\<close>

definition s_one_seen :: state where
  "s_one_seen = s_one\<lparr>devices := [(new_log_device_t ''main'' False)\<lparr>printed := True\<rparr>],
                        cur_dev := Some (Registered 0)\<rparr>"

text \<open>A service that answers \<open>9000\<close>, a newline, \<open>stats\<close> and a form feed whatever the
  buffer, one that answers \<open>0\<close>, and an allocator that never fails.\<close>

definition svc_9000 :: "unit \<Rightarrow> nat \<Rightarrow> bytes \<times> unit" where
  "svc_9000 sv n = (''9000'' @ [CHR 0x0A] @ ''stats'' @ [CHR 0x0C], sv)"

definition svc_zero :: "unit \<Rightarrow> nat \<Rightarrow> bytes \<times> unit" where
  "svc_zero sv n = (''0'', sv)"

definition alloc_all :: "size_t \<Rightarrow> bool" where
  "alloc_all n = True"

section \<open>Properties\<close>

text \<open>The search for the lowest free descriptor, one descriptor at a time.\<close>

lemma find_upt_rec:
  "find P [i..<j] = (if i < j then (if P i then Some i else find P [Suc i..<j]) else None)"
  by (simp add: upt_conv_Cons)

text \<open>The equations that evaluate a run on a concrete world.\<close>

lemmas world_eval = init_state_def new_log_device_t_def on_world_def
  sys_close_def sys_rename_def openLogFile_def sys_open_append_creat_def lowest_free_def find_upt_rec
  append_fd_def sys_write_def
  failc_def okc_def perror_def fprintf_stderr_def show_help_def st_size_def
  ENOENT_def EBADF_def EACCES_def EMFILE_def EIO_def EAGAIN_def EINVAL_def EXIT_FAILURE_def STDOUT_FILENO_def
  DEFAULT_MAX_ROTATED_LOGS_def Let_def


section \<open>Decimal digits\<close>

lemma length_digits10: "0 < n \<Longrightarrow> length (digits10 n) = floorlog 10 n"
proof (induction n rule: digits10.induct)
  case (1 n)
  show ?case
  proof (cases "n < 10")
    case True
    with 1(2) have "floorlog 10 n = 1"
      by (subst compute_floorlog) (simp add: compute_floorlog)
    with True show ?thesis by (subst digits10.simps) simp
  next
    case False
    then have "0 < n div 10" by simp
    with 1(1) False have "length (digits10 (n div 10)) = floorlog 10 (n div 10)" by simp
    with False 1(2) show ?thesis
      by (subst digits10.simps, subst compute_floorlog) simp
  qed
qed









section \<open>The rotation\<close>

lemma fmt_prec_d_backup:
  assumes "1 \<le> j" "j \<le> k"
  shows "nm @ ''.'' @ fmt_prec_d (maxRotationCountDigits k) j = backup_name nm k j"
  using assms by (simp add: fmt_prec_d_def maxRotationCountDigits_def backup_name_def length_digits10 Let_def)

lemma rotate_step_names:
  assumes "1 \<le> j" "j \<le> k"
  shows "rotate_step nm (maxRotationCountDigits k) j w =
     (let w1 = sys_rename (backup_name nm k (j - 1)) (backup_name nm k j) w
      in if retval w1 < 0 \<and> errno w1 \<noteq> ENOENT then perror ''while rotating log files'' w1 else w1)"
proof (cases "j = 1")
  case True
  then show ?thesis using assms fmt_prec_d_backup[of j k nm]
    by (simp add: rotate_step_def backup_name_def)
next
  case False
  with assms have "1 \<le> j - 1" "j - 1 \<le> k" by simp_all
  from fmt_prec_d_backup[OF this, of nm] fmt_prec_d_backup[OF assms, of nm] False
  show ?thesis by (simp add: rotate_step_def)
qed

lemma rotate_step_effect:
  assumes "1 \<le> j" "j \<le> k"
  shows "\<exists>r. trace (rotate_step nm (maxRotationCountDigits k) j w)
              = trace w @ [(Rename (backup_name nm k (j - 1)) (backup_name nm k j), r)]
           \<and> stderr_lines (rotate_step nm (maxRotationCountDigits k) j w)
              = stderr_lines w @ rename_report (Rename (backup_name nm k (j - 1)) (backup_name nm k j), r)"
  unfolding rotate_step_names[OF assms]
  by (auto simp: sys_rename_def failc_def okc_def perror_def Let_def split: option.splits)

lemma rotate_loop_effect:
  assumes "i \<le> k"
  shows "\<exists>evs. trace (rotate_loop nm (maxRotationCountDigits k) i w) = trace w @ evs
           \<and> map fst evs = map (\<lambda>j. Rename (backup_name nm k (j - 1)) (backup_name nm k j)) (rev [1..i])
           \<and> stderr_lines (rotate_loop nm (maxRotationCountDigits k) i w)
               = stderr_lines w @ rename_reports evs"
  using assms
proof (induction nm "maxRotationCountDigits k" i w rule: rotate_loop.induct)
  case (1 nm i w)
  show ?case
  proof (cases "0 < i")
    case False
    then have "[1..i] = []" by simp
    with False show ?thesis
      by (subst (1 2) rotate_loop.simps) (simp add: rename_reports_def)
  next
    case True
    let ?d = "maxRotationCountDigits k"
    let ?w1 = "rotate_step nm ?d i w"
    let ?c = "Rename (backup_name nm k (i - 1)) (backup_name nm k i)"
    from True 1(2) have ij: "1 \<le> i" "i \<le> k" by simp_all
    from rotate_step_effect[OF ij, of nm w] obtain r where
      r: "trace ?w1 = trace w @ [(?c, r)]"
         "stderr_lines ?w1 = stderr_lines w @ rename_report (?c, r)"
      by blast
    from 1(1)[OF True] 1(2) obtain evs where
      evs: "trace (rotate_loop nm ?d (i - 1) ?w1) = trace ?w1 @ evs"
           "map fst evs = map (\<lambda>j. Rename (backup_name nm k (j - 1)) (backup_name nm k j)) (rev [1..i - 1])"
           "stderr_lines (rotate_loop nm ?d (i - 1) ?w1) = stderr_lines ?w1 @ rename_reports evs"
      by auto
    have unf: "rotate_loop nm ?d i w = rotate_loop nm ?d (i - 1) ?w1"
      using True by (subst rotate_loop.simps) simp
    have up: "rev [1..i] = i # rev [1..i - 1]"
      using True by (simp add: upto_rec2)
    have "trace (rotate_loop nm ?d i w) = trace w @ ((?c, r) # evs)"
      using evs(1) r(1) unf by simp
    moreover have "map fst ((?c, r) # evs)
        = map (\<lambda>j. Rename (backup_name nm k (j - 1)) (backup_name nm k j)) (rev [1..i])"
      using evs(2) up by simp
    moreover have "stderr_lines (rotate_loop nm ?d i w) = stderr_lines w @ rename_reports ((?c, r) # evs)"
      using evs(3) r(2) unf by (simp add: rename_reports_def)
    ultimately show ?thesis by blast
  qed
qed











lemma open_effect:
  "\<exists>r. trace (openLogFile nm w) = trace w @ [(Open nm, r)]
      \<and> stderr_lines (openLogFile nm w) = stderr_lines w
      \<and> (case r of
            Err e \<Rightarrow> retval (openLogFile nm w) = -1 \<and> errno (openLogFile nm w) = e
          | Ok fd \<Rightarrow> retval (openLogFile nm w) = fd \<and> 0 \<le> fd
                    \<and> (\<exists>i. fds (openLogFile nm w) fd = Some i \<and> names (openLogFile nm w) nm = Some i
                           \<and> (names w nm = None \<longrightarrow> inodes (openLogFile nm w) i = [] \<and> i = next_inode w)
                           \<and> (\<forall>j. names w nm = Some j \<longrightarrow> i = j)
                           \<and> (\<forall>j. j \<noteq> i \<or> names w nm \<noteq> None \<longrightarrow> inodes (openLogFile nm w) j = inodes w j)))"
  by (auto simp: openLogFile_def sys_open_append_creat_def failc_def okc_def split: option.splits)

lemma close_effect:
  "\<exists>c. trace (sys_close fd w) = trace w @ [(Close fd, c)] \<and> stderr_lines (sys_close fd w) = stderr_lines w
     \<and> names (sys_close fd w) = names w \<and> inodes (sys_close fd w) = inodes w
     \<and> next_inode (sys_close fd w) = next_inode w"
  by (auto simp: sys_close_def failc_def okc_def split: option.splits)




section \<open>The read loop\<close>

text \<open>
  Claim C7. Without an output pathname \<^verbatim>\<open>rotateLogs\<close> returns at once and leaves the
  whole state as it is, whatever the rotation size; and \<^verbatim>\<open>main\<close> refuses a rotation
  size without a pathname before \<^verbatim>\<open>setupOutput\<close>: it prints the message and the usage
  and exits with \<open>-1\<close>, having made no system call and opened nothing.
\<close>

theorem rotate_needs_pathname:
  assumes "g_outputFileName s = None"
  shows "rotateLogs s = Done s
    \<and> (g_logRotateSizeKBytes s \<noteq> 0 \<longrightarrow>
          main_check_and_setupOutput s
            = Exit (-1) (on_world show_help
                 (on_world (fprintf_stderr (''-r requires -f as well'' @ [CHR 0x0A])) s))
        \<and> trace (world (run_state (main_check_and_setupOutput s))) = trace (world s)
        \<and> fds (world (run_state (main_check_and_setupOutput s))) = fds (world s)
        \<and> g_outFD (run_state (main_check_and_setupOutput s)) = g_outFD s)"
  using assms
  by (simp add: rotateLogs_def main_check_and_setupOutput_def on_world_def show_help_def
      fprintf_stderr_def)

theorem rotate_needs_pathname_witness:
  "g_outputFileName s_r_without_f = None \<and> rotateLogs s_r_without_f = Done s_r_without_f
   \<and> g_logRotateSizeKBytes s_r_without_f \<noteq> 0
   \<and> main_check_and_setupOutput s_r_without_f
        = Exit (-1) (on_world show_help
             (on_world (fprintf_stderr (''-r requires -f as well'' @ [CHR 0x0A])) s_r_without_f))
   \<and> trace (world (run_state (main_check_and_setupOutput s_r_without_f))) = []
   \<and> g_outFD (run_state (main_check_and_setupOutput s_r_without_f)) = -1"
proof -
  have h: "g_outputFileName s_r_without_f = None" by (simp add: s_r_without_f_def init_state_def)
  have n: "g_logRotateSizeKBytes s_r_without_f \<noteq> 0" by (simp add: s_r_without_f_def init_state_def)
  have t: "trace (world s_r_without_f) = [] \<and> g_outFD s_r_without_f = -1"
    by (simp add: s_r_without_f_def init_state_def world_out_def)
  from rotate_needs_pathname[OF h] n t h show ?thesis
    by (simp add: on_world_def show_help_def fprintf_stderr_def)
qed

lemma rotateLogs_Exit_code: "rotateLogs s = Exit c s' \<Longrightarrow> c = -1"
  by (auto simp: rotateLogs_def Let_def split: option.splits if_splits)

lemma processBuffer_Exit_code: "processBuffer L d buf s = Exit c s' \<Longrightarrow> c = -1"
  by (auto simp: processBuffer_def Let_def split: option.splits if_splits dest: rotateLogs_Exit_code)

lemma maybePrintStart_Exit_code: "maybePrintStart d pd s = Exit c x \<Longrightarrow> c = -1"
  by (auto simp: maybePrintStart_def Let_def split: if_splits)

lemma body_nonpositive:
  "ret \<le> 0 \<Longrightarrow> \<exists>s'. main_loop_body L pd ret lmsg s = Stop (if ret = - EAGAIN then 0 else EXIT_FAILURE) s'"
  by (auto simp: main_loop_body_def EAGAIN_def)

lemma body_positive_Stop:
  assumes "0 < ret" "main_loop_body L pd ret lmsg s = Stop c s'" shows "c = -1"
  using assms
  by (auto simp: main_loop_body_def Let_def split: option.splits if_splits run.splits
      dest: processBuffer_Exit_code maybePrintStart_Exit_code)

lemma body_Stop_0: "main_loop_body L pd ret lmsg s = Stop 0 s' \<longleftrightarrow> ret = - EAGAIN \<and> s' = s"
proof
  assume h: "main_loop_body L pd ret lmsg s = Stop 0 s'"
  show "ret = - EAGAIN \<and> s' = s"
  proof (cases "0 < ret")
    case True
    from body_positive_Stop[OF True h] show ?thesis by simp
  next
    case False
    with h show ?thesis
      by (auto simp: main_loop_body_def EXIT_FAILURE_def split: if_splits)
  qed
next
  assume "ret = - EAGAIN \<and> s' = s"
  then show "main_loop_body L pd ret lmsg s = Stop 0 s'"
    by (simp add: main_loop_body_def EAGAIN_def)
qed

lemma body_Continue_positive: "main_loop_body L pd ret lmsg s = Continue s' \<Longrightarrow> 0 < ret"
  using body_nonpositive[of ret L pd lmsg s] by (cases "0 < ret") auto

lemma main_loop_Exited_0:
  "main_loop L pd reads s = Exited 0 s' \<Longrightarrow>
     \<exists>pre x post. reads = pre @ (- EAGAIN, x) # post \<and> list_all (\<lambda>r. 0 < fst r) pre"
proof (induction reads arbitrary: s)
  case Nil
  then show ?case by simp
next
  case (Cons a reads)
  show ?case
  proof (cases "main_loop_body L pd (fst a) (snd a) s")
    case (Stop c s1)
    with Cons.prems have "c = 0" by simp
    with Stop have "fst a = - EAGAIN" by (simp add: body_Stop_0)
    then have "a # reads = [] @ (- EAGAIN, snd a) # reads \<and> list_all (\<lambda>r. 0 < fst r) []"
      by (cases a) simp
    then show ?thesis by blast
  next
    case (Continue s1)
    with Cons.prems have "main_loop L pd reads s1 = Exited 0 s'" by simp
    from Cons.IH[OF this] obtain pre x post where
      p: "reads = pre @ (- EAGAIN, x) # post" "list_all (\<lambda>r. 0 < fst r) pre" by blast
    from body_Continue_positive[OF Continue] p
    have "a # reads = (a # pre) @ (- EAGAIN, x) # post \<and> list_all (\<lambda>r. 0 < fst r) (a # pre)" by simp
    then show ?thesis by blast
  qed
qed

text \<open>
  Claim C3. For every value \<open>ret\<close> of \<^verbatim>\<open>android_logger_list_read\<close>: the turn of the loop
  ends the process with status 0 exactly when \<open>ret = -EAGAIN\<close> (the state is then
  untouched); every other \<open>ret \<le> 0\<close> (0 for end of stream, \<open>-EIO\<close>, \<open>-EINVAL\<close>, any other
  negative value) ends it with \<^verbatim>\<open>EXIT_FAILURE\<close>, which is not 0; and a run of the loop
  that ends with status 0 has read \<open>-EAGAIN\<close> after positive values only.
\<close>

theorem read_status_exit:
  "(main_loop_body L pd ret lmsg s = Stop 0 s' \<longleftrightarrow> ret = - EAGAIN \<and> s' = s)
   \<and> (ret \<le> 0 \<and> ret \<noteq> - EAGAIN \<longrightarrow>
        (\<exists>s''. main_loop_body L pd ret lmsg s = Stop EXIT_FAILURE s'') \<and> EXIT_FAILURE \<noteq> 0)
   \<and> (main_loop L pd reads s = Exited 0 s' \<longrightarrow>
        (\<exists>pre x post. reads = pre @ (- EAGAIN, x) # post \<and> list_all (\<lambda>r. 0 < fst r) pre))"
  using body_Stop_0[of L pd ret lmsg s s'] body_nonpositive[of ret L pd lmsg s]
    main_loop_Exited_0[of L pd reads s s']
  by (auto simp: EXIT_FAILURE_def)

theorem read_status_exit_witness:
  "- EIO \<le> 0 \<and> - EIO \<noteq> - EAGAIN
   \<and> (\<exists>s''. main_loop_body liblog0 False (- EIO) msg_main s_rot = Stop EXIT_FAILURE s'')
   \<and> EXIT_FAILURE \<noteq> 0
   \<and> main_loop_body liblog0 False (- EAGAIN) msg_main s_rot = Stop 0 s_rot
   \<and> main_loop liblog0 False [(- EAGAIN, msg_main)] s_rot = Exited 0 s_rot
   \<and> (\<exists>pre x post. [(- EAGAIN, msg_main)] = pre @ (- EAGAIN, x) # post
                     \<and> list_all (\<lambda>r. 0 < fst r) pre)"
proof -
  have a: "- EIO \<le> 0 \<and> - EIO \<noteq> - EAGAIN" by (simp add: EIO_def EAGAIN_def)
  have b: "main_loop liblog0 False [(- EAGAIN, msg_main)] s_rot = Exited 0 s_rot"
    by (simp add: main_loop_body_def EAGAIN_def)
  from read_status_exit[of liblog0 False "- EIO" msg_main s_rot s_rot "[(- EAGAIN, msg_main)]"] 
       read_status_exit[of liblog0 False "- EAGAIN" msg_main s_rot s_rot "[(- EAGAIN, msg_main)]"] a b
  show ?thesis by simp
qed

section \<open>processBuffer\<close>






lemma rotateLogs_trace_prefix:
  "\<exists>evs. trace (world (run_state (rotateLogs s))) = trace (world s) @ evs"
proof (cases "g_outputFileName s")
  case None
  then show ?thesis by (simp add: rotateLogs_def)
next
  case (Some nm)
  let ?k = "g_maxRotatedLogs s"
  let ?w1 = "sys_close (g_outFD s) (world s)"
  let ?w2 = "rotate_loop nm (maxRotationCountDigits ?k) ?k ?w1"
  from close_effect[of "g_outFD s" "world s"] obtain c where
    c: "trace ?w1 = trace (world s) @ [(Close (g_outFD s), c)]" by blast
  from rotate_loop_effect[of ?k ?k nm ?w1] obtain evs where e: "trace ?w2 = trace ?w1 @ evs" by auto
  from open_effect[of nm ?w2] obtain r where r: "trace (openLogFile nm ?w2) = trace ?w2 @ [(Open nm, r)]"
    by blast
  from c e r Some show ?thesis
    by (simp add: rotateLogs_def Let_def on_world_def perror_def)
qed





text \<open>The record that takes \<open>out\<close> from 1020 to 1026 bytes, with a rotation size of 1 KB.\<close>

lemmas buffer_eval = processBuffer_def android_log_printLogLine_def printBinary_def maybePrintStart_def
  banner_def liblog0_def msg_main_def signed_divide_int_def


section \<open>Binary mode\<close>

lemma sys_write_trace:
  "\<exists>r. trace (sys_write fd bs w) = trace w @ [(Write fd bs, r)]"
  by (auto simp: sys_write_def append_fd_def failc_def okc_def split: option.splits)

lemma binary_maybePrintStart:
  assumes "g_printBinary s \<noteq> 0"
  shows "\<exists>s'. maybePrintStart d pd s = Done s' \<and> world s' = world s
            \<and> g_printBinary s' = g_printBinary s \<and> g_outFD s' = g_outFD s
            \<and> g_outByteCount s' = g_outByteCount s"
  using assms by (cases d) (auto simp: maybePrintStart_def)

lemma binary_body_positive:
  assumes b: "g_printBinary s \<noteq> 0" and p: "0 < ret"
  shows "\<exists>s' r. main_loop_body L pd ret m s = Continue s'
            \<and> g_printBinary s' = g_printBinary s \<and> g_outFD s' = g_outFD s
            \<and> g_outByteCount s' = g_outByteCount s
            \<and> trace (world s') = trace (world s) @ [(Write (g_outFD s) (take (msg_len m) (msg_buf m)), r)]"
proof -
  let ?d = "resolve_device L m s"
  let ?s1 = "note_unexpected L m s"
  let ?r2 = "if cur_dev ?s1 \<noteq> Some ?d then maybePrintStart ?d pd (?s1\<lparr>cur_dev := Some ?d\<rparr>) else Done ?s1"
  have s1: "world ?s1 = world s \<and> g_printBinary ?s1 = g_printBinary s \<and> g_outFD ?s1 = g_outFD s
            \<and> g_outByteCount ?s1 = g_outByteCount s"
    by (simp add: note_unexpected_def)
  have "\<exists>s2. ?r2 = Done s2 \<and> world s2 = world s \<and> g_printBinary s2 = g_printBinary s
            \<and> g_outFD s2 = g_outFD s \<and> g_outByteCount s2 = g_outByteCount s"
  proof (cases "cur_dev ?s1 \<noteq> Some ?d")
    case True
    have "g_printBinary (?s1\<lparr>cur_dev := Some ?d\<rparr>) \<noteq> 0" using b s1 by simp
    from binary_maybePrintStart[OF this, of ?d pd] True s1 show ?thesis by auto
  next
    case False
    with s1 show ?thesis by auto
  qed
  then obtain s2 where s2: "?r2 = Done s2" "world s2 = world s" "g_printBinary s2 = g_printBinary s"
    "g_outFD s2 = g_outFD s" "g_outByteCount s2 = g_outByteCount s" by blast
  from sys_write_trace[of "g_outFD s" "take (msg_len m) (msg_buf m)" "world s"] obtain r where
    r: "trace (sys_write (g_outFD s) (take (msg_len m) (msg_buf m)) (world s))
        = trace (world s) @ [(Write (g_outFD s) (take (msg_len m) (msg_buf m)), r)]" by blast
  have "main_loop_body L pd ret m s = Continue (printBinary m s2)"
    using p b s2 by (simp add: main_loop_body_def Let_def)
  moreover have "g_printBinary (printBinary m s2) = g_printBinary s \<and> g_outFD (printBinary m s2) = g_outFD s
      \<and> g_outByteCount (printBinary m s2) = g_outByteCount s
      \<and> trace (world (printBinary m s2)) = trace (world s) @ [(Write (g_outFD s) (take (msg_len m) (msg_buf m)), r)]"
    using s2 r by (simp add: printBinary_def Let_def)
  ultimately show ?thesis by blast
qed

lemma body_nonpositive_frame:
  assumes "ret \<le> 0"
  shows "\<exists>c s'. main_loop_body L pd ret m s = Stop c s' \<and> trace (world s') = trace (world s)
            \<and> g_outByteCount s' = g_outByteCount s"
  using assms
  by (auto simp: main_loop_body_def on_world_def fprintf_stderr_def perror_def)

text \<open>
  Claim C8. In binary mode (\<^verbatim>\<open>g_printBinary\<close> set) \<^verbatim>\<open>printBinary\<close> leaves
  \<^verbatim>\<open>g_outByteCount\<close> as it is, and so does the whole read loop, for every sequence of
  answers of the transport: the loop only writes, for every record read before the first
  answer that is not positive and in the order read, the first \<^verbatim>\<open>len()\<close> bytes of the
  record structure as they are; liblog's decoders and filter are not used, no banner is
  written, and nothing is closed, renamed or opened, so no rotation takes place whatever
  the rotation size.
\<close>

theorem binary_mode_no_accounting:
  assumes "g_printBinary s \<noteq> 0"
  shows "g_outByteCount (printBinary m s) = g_outByteCount s
    \<and> g_outByteCount (final_state (main_loop L pd reads s)) = g_outByteCount s
    \<and> (\<exists>evs. trace (world (final_state (main_loop L pd reads s))) = trace (world s) @ evs
            \<and> map fst evs = map (\<lambda>r. Write (g_outFD s) (take (msg_len (snd r)) (msg_buf (snd r))))
                                 (takeWhile (\<lambda>r. 0 < fst r) reads))"
proof -
  have loop: "g_outByteCount (final_state (main_loop L pd reads s)) = g_outByteCount s
    \<and> (\<exists>evs. trace (world (final_state (main_loop L pd reads s))) = trace (world s) @ evs
            \<and> map fst evs = map (\<lambda>r. Write (g_outFD s) (take (msg_len (snd r)) (msg_buf (snd r))))
                                 (takeWhile (\<lambda>r. 0 < fst r) reads))"
    using assms
  proof (induction reads arbitrary: s)
    case Nil
    then show ?case by simp
  next
    case (Cons a reads)
    show ?case
    proof (cases "0 < fst a")
      case False
      then have "fst a \<le> 0" by simp
      from body_nonpositive_frame[OF this, of L pd "snd a" s] False show ?thesis by auto
    next
      case True
      from binary_body_positive[OF Cons.prems True, of L pd "snd a"] obtain s' r where
        b: "main_loop_body L pd (fst a) (snd a) s = Continue s'"
           "g_printBinary s' = g_printBinary s" "g_outFD s' = g_outFD s"
           "g_outByteCount s' = g_outByteCount s"
           "trace (world s') = trace (world s) @ [(Write (g_outFD s) (take (msg_len (snd a)) (msg_buf (snd a))), r)]"
        by blast
      from b(2) Cons.prems have "g_printBinary s' \<noteq> 0" by simp
      from Cons.IH[OF this] obtain evs where
        ih: "g_outByteCount (final_state (main_loop L pd reads s')) = g_outByteCount s'"
            "trace (world (final_state (main_loop L pd reads s'))) = trace (world s') @ evs"
            "map fst evs = map (\<lambda>r. Write (g_outFD s') (take (msg_len (snd r)) (msg_buf (snd r))))
                                 (takeWhile (\<lambda>r. 0 < fst r) reads)"
        by blast
      let ?evs = "(Write (g_outFD s) (take (msg_len (snd a)) (msg_buf (snd a))), r) # evs"
      have "trace (world (final_state (main_loop L pd (a # reads) s))) = trace (world s) @ ?evs"
        using b ih by simp
      moreover have "map fst ?evs = map (\<lambda>r. Write (g_outFD s) (take (msg_len (snd r)) (msg_buf (snd r))))
                                 (takeWhile (\<lambda>r. 0 < fst r) (a # reads))"
        using True ih(3) b(3) by simp
      moreover have "g_outByteCount (final_state (main_loop L pd (a # reads) s)) = g_outByteCount s"
        using b ih by simp
      ultimately show ?thesis by blast
    qed
  qed
  have "g_outByteCount (printBinary m s) = g_outByteCount s" by (simp add: printBinary_def Let_def)
  with loop show ?thesis by simp
qed


lemmas loop_eval = main_loop_body_def resolve_device_def note_unexpected_def msg_events_def s_two_def s_bin_def

theorem binary_mode_no_accounting_witness:
  "g_printBinary s_bin \<noteq> 0
   \<and> g_outByteCount (printBinary msg_main s_bin) = g_outByteCount s_bin
   \<and> g_outByteCount (final_state (main_loop liblog0 True
         [(1, msg_main), (1, msg_events), (- EAGAIN, msg_main)] s_bin)) = 1020
   \<and> map fst (trace (world (final_state (main_loop liblog0 True
         [(1, msg_main), (1, msg_events), (- EAGAIN, msg_main)] s_bin))))
       = [Write 3 ''hello'', Write 3 ''XYZ'']
   \<and> inodes (world (final_state (main_loop liblog0 True
         [(1, msg_main), (1, msg_events), (- EAGAIN, msg_main)] s_bin))) 3 = ''AAAAhelloXYZ''"
proof -
  have h: "g_printBinary s_bin \<noteq> 0" by (simp add: s_bin_def)
  have c: "g_outByteCount s_bin = 1020" by (simp add: s_bin_def)
  have ev: "map fst (trace (world (final_state (main_loop liblog0 True
         [(1, msg_main), (1, msg_events), (- EAGAIN, msg_main)] s_bin))))
       = [Write 3 ''hello'', Write 3 ''XYZ'']
   \<and> inodes (world (final_state (main_loop liblog0 True
         [(1, msg_main), (1, msg_events), (- EAGAIN, msg_main)] s_bin))) 3 = ''AAAAhelloXYZ''"
    by (simp add: world_out_def world_eval buffer_eval loop_eval cong: let_weak_cong)
  from binary_mode_no_accounting[OF h, of msg_main liblog0 True
      "[(1, msg_main), (1, msg_events), (- EAGAIN, msg_main)]"] h c ev
  show ?thesis by simp
qed

section \<open>Banners\<close>

lemma devs_mono_refl: "devs_mono s s"
  by (simp add: devs_mono_def)

lemma devs_mono_trans: "devs_mono s s1 \<Longrightarrow> devs_mono s1 s2 \<Longrightarrow> devs_mono s s2"
  by (auto simp: devs_mono_def)

lemma find_device_lt: "find_device f lid ds = Some i \<Longrightarrow> i < length ds"
  by (induction ds arbitrary: i) (auto split: if_splits)

lemma resolve_device_valid: "valid_ref s (resolve_device L m s)"
  by (auto simp: resolve_device_def split: option.splits dest: find_device_lt)

lemma deref_assign: "valid_ref s d \<Longrightarrow> deref (assign d x s) d = x"
  by (cases d) simp_all

lemma maybePrintStart_suppressed:
  assumes "g_devCount s \<le> 1 \<or> g_printBinary s \<noteq> 0"
  shows "maybePrintStart d pd s
         = Done (if \<not> printed (deref s d) \<or> pd then assign d ((deref s d)\<lparr>printed := True\<rparr>) s else s)"
    and "world (run_state (maybePrintStart d pd s)) = world s"
  using assms by (cases d; auto simp: maybePrintStart_def)+

lemma maybePrintStart_silent:
  "printed (deref s d) \<Longrightarrow> \<not> pd \<Longrightarrow> maybePrintStart d pd s = Done s"
  by (simp add: maybePrintStart_def)

lemma sys_write_effect:
  "\<exists>r. trace (sys_write fd bs w) = trace w @ [(Write fd bs, r)]
      \<and> (case r of Ok n \<Rightarrow> 0 \<le> retval (sys_write fd bs w)
                  | Err e \<Rightarrow> retval (sys_write fd bs w) = -1 \<and> errno (sys_write fd bs w) = e)"
  by (auto simp: sys_write_def append_fd_def failc_def okc_def split: option.splits)

lemma maybePrintStart_emits:
  assumes "1 < g_devCount s" "g_printBinary s = 0" "\<not> printed (deref s d) \<or> pd" "valid_ref s d"
  shows "\<exists>r. trace (world (run_state (maybePrintStart d pd s)))
              = trace (world s) @ [(Write (g_outFD s) (banner (printed (deref s d)) (device (deref s d))), r)]
           \<and> (case r of
                 Ok n \<Rightarrow> (\<exists>s'. maybePrintStart d pd s = Done s' \<and> printed (deref s' d))
               | Err e \<Rightarrow> (\<exists>s'. maybePrintStart d pd s = Exit (-1) s'))"
proof -
  let ?bs = "banner (printed (deref s d)) (device (deref s d))"
  let ?w1 = "sys_write (g_outFD s) ?bs (world s)"
  let ?s1 = "s\<lparr>world := ?w1\<rparr>"
  from sys_write_effect[of "g_outFD s" ?bs "world s"] obtain r where
    r: "trace ?w1 = trace (world s) @ [(Write (g_outFD s) ?bs, r)]"
       "(case r of Ok n \<Rightarrow> 0 \<le> retval ?w1 | Err e \<Rightarrow> retval ?w1 = -1 \<and> errno ?w1 = e)" by blast
  have v1: "valid_ref ?s1 d" using assms(4) by (cases d) simp_all
  show ?thesis
  proof (cases r)
    case (Ok n)
    with r(2) have "\<not> retval ?w1 < 0" by simp
    then have run: "maybePrintStart d pd s = Done (assign d ((deref ?s1 d)\<lparr>printed := True\<rparr>) ?s1)"
      using assms(1-3) by (simp add: maybePrintStart_def Let_def)
    have "world (assign d ((deref ?s1 d)\<lparr>printed := True\<rparr>) ?s1) = ?w1" by (cases d) simp_all
    moreover have "printed (deref (assign d ((deref ?s1 d)\<lparr>printed := True\<rparr>) ?s1) d)"
      using deref_assign[OF v1] by simp
    ultimately show ?thesis using run r(1) Ok by simp
  next
    case (Err e)
    with r(2) have "retval ?w1 < 0" by simp
    then have run: "maybePrintStart d pd s = Exit (-1) (on_world (perror ''output error'') ?s1)"
      using assms(1-3) by (simp add: maybePrintStart_def Let_def)
    then show ?thesis using r(1) Err by (simp add: on_world_def perror_def)
  qed
qed

lemma maybePrintStart_devs_mono:
  "valid_ref s d \<Longrightarrow> devs_mono s (run_state (maybePrintStart d pd s))"
  by (cases d) (auto simp: maybePrintStart_def devs_mono_def Let_def on_world_def nth_list_update)

lemma banner_text:
  "banner False nm = take 1023 (''--------- beginning of '' @ nm @ [CHR 0x0A])"
  "banner True nm = take 1023 (''--------- switch to '' @ nm @ [CHR 0x0A])"
  by (simp_all add: banner_def)

lemma banner_differ: "banner True a \<noteq> banner False b"
proof
  assume "banner True a = banner False b"
  then have "banner True a ! 10 = banner False b ! 10" by simp
  then show False by (simp add: banner_def)
qed

lemma no_write_simps [simp]:
  "no_write []" "no_write (e # evs) = (\<not> is_write (fst e) \<and> no_write evs)"
  "no_write (xs @ ys) = (no_write xs \<and> no_write ys)"
  by (simp_all add: no_write_def)

lemma no_write_renames:
  assumes "map fst evs = map (\<lambda>j. Rename (f j) (g j)) js"
  shows "no_write evs"
proof -
  have "\<forall>c \<in> set (map fst evs). \<not> is_write c" unfolding assms by auto
  then show ?thesis by (auto simp: no_write_def list_all_iff)
qed

lemma if3_disj: "x = (if a then p else if b then q else r) \<Longrightarrow> x = p \<or> x = q \<or> x = r"
  by (simp split: if_splits)

lemma rotateLogs_no_write:
  "\<exists>evs. trace (world (run_state (rotateLogs s))) = trace (world s) @ evs \<and> no_write evs"
proof (cases "g_outputFileName s")
  case None
  then show ?thesis by (simp add: rotateLogs_def)
next
  case (Some nm)
  let ?k = "g_maxRotatedLogs s"
  let ?w1 = "sys_close (g_outFD s) (world s)"
  let ?w2 = "rotate_loop nm (maxRotationCountDigits ?k) ?k ?w1"
  from close_effect[of "g_outFD s" "world s"] obtain c where
    c: "trace ?w1 = trace (world s) @ [(Close (g_outFD s), c)]" by blast
  from rotate_loop_effect[of ?k ?k nm ?w1] obtain evs where
    e: "trace ?w2 = trace ?w1 @ evs"
       "map fst evs = map (\<lambda>j. Rename (backup_name nm ?k (j - 1)) (backup_name nm ?k j)) (rev [1..?k])"
    by auto
  from open_effect[of nm ?w2] obtain r where r: "trace (openLogFile nm ?w2) = trace ?w2 @ [(Open nm, r)]"
    by blast
  have "trace (world (run_state (rotateLogs s)))
      = trace (world s) @ ((Close (g_outFD s), c) # evs @ [(Open nm, r)])"
    using c e(1) r Some by (simp add: rotateLogs_def Let_def on_world_def perror_def)
  moreover have "no_write ((Close (g_outFD s), c) # evs @ [(Open nm, r)])"
    using no_write_renames[OF e(2)] by simp
  ultimately show ?thesis by blast
qed

lemma printLogLine_trace:
  "\<exists>r. trace (android_log_printLogLine L fd entry w)
        = trace w @ [(PrintLogLine fd (android_log_formatLogLine L entry), r)]"
  by (auto simp: android_log_printLogLine_def append_fd_def failc_def okc_def Let_def split: option.splits)

lemma processBuffer_no_write:
  "\<exists>evs. trace (world (run_state (processBuffer L d m s))) = trace (world s) @ evs \<and> no_write evs"
proof (cases "if binary (deref s d) then android_log_processBinaryLogBuffer L m
              else android_log_processLogBuffer L m")
  case None
  then show ?thesis by (simp add: processBuffer_def)
next
  case (Some entry)
  let ?s0 = "if android_log_shouldPrintLine L entry
             then s\<lparr>world := android_log_printLogLine L (g_outFD s) entry (world s)\<rparr> else s"
  let ?bw = "if android_log_shouldPrintLine L entry then retval (world ?s0) else 0"
  let ?s1 = "?s0\<lparr>g_outByteCount := g_outByteCount ?s0 + ?bw\<rparr>"
  from printLogLine_trace[of L "g_outFD s" entry "world s"]
  obtain evs0 where e0: "trace (world ?s0) = trace (world s) @ evs0" "no_write evs0"
    by (cases "android_log_shouldPrintLine L entry") auto
  from rotateLogs_no_write[of ?s1] obtain evs1 where
    e1: "trace (world (run_state (rotateLogs ?s1))) = trace (world ?s1) @ evs1" "no_write evs1" by blast
  have w1: "world ?s1 = world ?s0" by simp
  have pb: "processBuffer L d m s =
      (if ?bw < 0 then Exit (-1) (on_world (perror ''output error'') ?s0)
       else if 0 < g_logRotateSizeKBytes ?s1 \<and> g_logRotateSizeKBytes ?s1 \<le> g_outByteCount ?s1 sdiv 1024
            then rotateLogs ?s1 else Done ?s1)"
    using Some by (simp only: processBuffer_def Let_def option.case)
  consider (err) "processBuffer L d m s = Exit (-1) (on_world (perror ''output error'') ?s0)"
    | (rot) "processBuffer L d m s = rotateLogs ?s1"
    | (ret) "processBuffer L d m s = Done ?s1"
    using if3_disj[OF pb] by blast
  then show ?thesis
  proof cases
    case err
    with e0 show ?thesis by (auto simp: on_world_def perror_def)
  next
    case rot
    have "trace (world (run_state (processBuffer L d m s))) = trace (world s) @ (evs0 @ evs1)"
      using rot e1(1) e0(1) w1 by simp
    moreover have "no_write (evs0 @ evs1)" using e0(2) e1(2) by simp
    ultimately show ?thesis by blast
  next
    case ret
    with e0 w1 show ?thesis by auto
  qed
qed

lemma rotateLogs_devs:
  "devices (run_state (rotateLogs s)) = devices s \<and> unexpected (run_state (rotateLogs s)) = unexpected s
   \<and> g_printBinary (run_state (rotateLogs s)) = g_printBinary s
   \<and> g_devCount (run_state (rotateLogs s)) = g_devCount s"
  by (auto simp: rotateLogs_def Let_def on_world_def split: option.splits)

lemma processBuffer_devs:
  "devices (run_state (processBuffer L d m s)) = devices s
   \<and> unexpected (run_state (processBuffer L d m s)) = unexpected s
   \<and> g_printBinary (run_state (processBuffer L d m s)) = g_printBinary s
   \<and> g_devCount (run_state (processBuffer L d m s)) = g_devCount s"
proof (cases "if binary (deref s d) then android_log_processBinaryLogBuffer L m
              else android_log_processLogBuffer L m")
  case None
  then show ?thesis by (simp add: processBuffer_def)
next
  case (Some entry)
  let ?s0 = "if android_log_shouldPrintLine L entry
             then s\<lparr>world := android_log_printLogLine L (g_outFD s) entry (world s)\<rparr> else s"
  let ?bw = "if android_log_shouldPrintLine L entry then retval (world ?s0) else 0"
  let ?s1 = "?s0\<lparr>g_outByteCount := g_outByteCount ?s0 + ?bw\<rparr>"
  have pb: "processBuffer L d m s =
      (if ?bw < 0 then Exit (-1) (on_world (perror ''output error'') ?s0)
       else if 0 < g_logRotateSizeKBytes ?s1 \<and> g_logRotateSizeKBytes ?s1 \<le> g_outByteCount ?s1 sdiv 1024
            then rotateLogs ?s1 else Done ?s1)"
    using Some by (simp only: processBuffer_def Let_def option.case)
  consider (err) "processBuffer L d m s = Exit (-1) (on_world (perror ''output error'') ?s0)"
    | (rot) "processBuffer L d m s = rotateLogs ?s1"
    | (ret) "processBuffer L d m s = Done ?s1"
    using if3_disj[OF pb] by blast
  then show ?thesis
  proof cases
    case err
    then show ?thesis by (simp add: on_world_def)
  next
    case rot
    then show ?thesis using rotateLogs_devs[of ?s1] by simp
  next
    case ret
    then show ?thesis by simp
  qed
qed

lemma no_banner_simps [simp]:
  "no_banner b []" "no_banner b (xs @ ys) = (no_banner b xs \<and> no_banner b ys)"
  "no_banner b [(Write fd bs, r)] = (bs \<noteq> b)"
  by (simp_all add: no_banner_def)

lemma no_write_no_banner: "no_write evs \<Longrightarrow> no_banner b evs"
  by (auto simp: no_write_def no_banner_def list_all_iff split: call.splits)

lemma maybePrintStart_events:
  "\<exists>evs. trace (world (run_state (maybePrintStart d pd s))) = trace (world s) @ evs
       \<and> (evs = [] \<or> (\<exists>r. evs = [(Write (g_outFD s) (banner (printed (deref s d)) (device (deref s d))), r)]))"
proof -
  let ?bs = "banner (printed (deref s d)) (device (deref s d))"
  from sys_write_effect[of "g_outFD s" ?bs "world s"] obtain r where
    r: "trace (sys_write (g_outFD s) ?bs (world s)) = trace (world s) @ [(Write (g_outFD s) ?bs, r)]"
    by blast
  then show ?thesis
    by (cases d) (auto simp: maybePrintStart_def Let_def on_world_def perror_def)
qed

lemma maybePrintStart_globals:
  "g_printBinary (run_state (maybePrintStart d pd s)) = g_printBinary s
   \<and> g_outFD (run_state (maybePrintStart d pd s)) = g_outFD s"
  by (cases d) (auto simp: maybePrintStart_def Let_def on_world_def)

lemma note_unexpected_frame:
  "devices (note_unexpected L m s) = devices s \<and> world (note_unexpected L m s) = world s
   \<and> device (unexpected (note_unexpected L m s)) = device (unexpected s)
   \<and> printed (unexpected (note_unexpected L m s)) = printed (unexpected s)
   \<and> g_printBinary (note_unexpected L m s) = g_printBinary s
   \<and> g_outFD (note_unexpected L m s) = g_outFD s
   \<and> cur_dev (note_unexpected L m s) = cur_dev s"
  by (simp add: note_unexpected_def)

text \<open>A turn of the loop in formatted mode: what \<^verbatim>\<open>maybePrintStart\<close> writes, if it is
  called, then events that are no \<^verbatim>\<open>write\<close> of logcat.cpp.\<close>

lemma body_formatted:
  assumes "0 < ret" "g_printBinary s = 0"
  shows "\<exists>evs. trace (world (loop_state (main_loop_body L pd ret m s)))
            = trace (world (run_state
                 (if cur_dev s \<noteq> Some (resolve_device L m s)
                  then maybePrintStart (resolve_device L m s) pd
                         ((note_unexpected L m s)\<lparr>cur_dev := Some (resolve_device L m s)\<rparr>)
                  else Done (note_unexpected L m s)))) @ evs
          \<and> no_write evs"
    and "devs_mono s (loop_state (main_loop_body L pd ret m s))"
proof -
  let ?d = "resolve_device L m s"
  let ?s1 = "note_unexpected L m s"
  let ?s1' = "?s1\<lparr>cur_dev := Some ?d\<rparr>"
  let ?r2 = "if cur_dev ?s1 \<noteq> Some ?d then maybePrintStart ?d pd ?s1' else Done ?s1"
  note f = note_unexpected_frame[of L m s]
  have body: "main_loop_body L pd ret m s =
      (case ?r2 of Exit c s2 \<Rightarrow> Stop c s2
       | Done s2 \<Rightarrow> (if g_printBinary s2 \<noteq> 0 then Continue (printBinary m s2)
                      else (case processBuffer L ?d m s2 of Exit c s3 \<Rightarrow> Stop c s3
                            | Done s3 \<Rightarrow> Continue s3)))"
    using assms(1) by (simp add: main_loop_body_def Let_def)
  have v: "valid_ref ?s1' ?d" using resolve_device_valid[of s L m] f by (cases ?d) simp_all
  have m1: "devs_mono s ?s1" using f by (simp add: devs_mono_def)
  have m2: "devs_mono s (run_state ?r2)"
  proof (cases "cur_dev ?s1 \<noteq> Some ?d")
    case True
    have "devs_mono s ?s1'" using f by (simp add: devs_mono_def)
    from devs_mono_trans[OF this maybePrintStart_devs_mono[OF v, of pd]] True show ?thesis by simp
  next
    case False
    with m1 show ?thesis by simp
  qed
  have b2: "g_printBinary (run_state ?r2) = 0"
    using maybePrintStart_globals[of ?d pd ?s1'] f assms(2) by simp
  have c: "cur_dev ?s1 = cur_dev s" using f by simp
  show "\<exists>evs. trace (world (loop_state (main_loop_body L pd ret m s)))
            = trace (world (run_state
                 (if cur_dev s \<noteq> Some ?d then maybePrintStart ?d pd ?s1' else Done ?s1))) @ evs
          \<and> no_write evs"
  proof (cases ?r2)
    case (Exit c2 s2)
    with body have "loop_state (main_loop_body L pd ret m s) = run_state ?r2" by simp
    then show ?thesis unfolding c by (intro exI[of _ "[]"]) simp
  next
    case (Done s2)
    with b2 have b: "g_printBinary s2 = 0" by simp
    from processBuffer_no_write[of L ?d m s2] obtain evs where
      e: "trace (world (run_state (processBuffer L ?d m s2))) = trace (world s2) @ evs" "no_write evs"
      by blast
    have "loop_state (main_loop_body L pd ret m s) = run_state (processBuffer L ?d m s2)"
      using body Done b by (cases "processBuffer L ?d m s2") simp_all
    with e Done show ?thesis unfolding c by (intro exI[of _ evs]) simp
  qed
  show "devs_mono s (loop_state (main_loop_body L pd ret m s))"
  proof (cases ?r2)
    case (Exit c2 s2)
    with body have "loop_state (main_loop_body L pd ret m s) = run_state ?r2" by simp
    with m2 show ?thesis by simp
  next
    case (Done s2)
    with b2 have b: "g_printBinary s2 = 0" by simp
    have l: "loop_state (main_loop_body L pd ret m s) = run_state (processBuffer L ?d m s2)"
      using body Done b by (cases "processBuffer L ?d m s2") simp_all
    have "devs_mono s2 (run_state (processBuffer L ?d m s2))"
      using processBuffer_devs[of L ?d m s2] by (simp add: devs_mono_def)
    from devs_mono_trans[OF _ this] m2 Done l show ?thesis by simp
  qed
qed

text \<open>
  Claim C6 as it is written fails on two runs with dividers forced (\<^verbatim>\<open>-D\<close>). With the
  buffers \<open>main\<close> and \<open>events\<close>, two records of \<open>main\<close> in a row give one banner, not one
  for each record: \<^verbatim>\<open>main\<close> calls \<^verbatim>\<open>maybePrintStart\<close> only when the device changes. With
  the buffer \<open>main\<close> alone, a record of \<open>main\<close>, one of an unexpected buffer and one of
  \<open>main\<close> again give \<open>switch to main\<close> as the first banner of \<open>main\<close>.
\<close>

theorem banner_per_record_counterexample:
  "map fst (trace (world (final_state (main_loop liblog0 True [(1, msg_main), (1, msg_main)] s_two))))
     = [Write 3 (''--------- beginning of main'' @ [CHR 0x0A]),
        PrintLogLine 3 (''hello'' @ [CHR 0x0A]),
        PrintLogLine 3 (''hello'' @ [CHR 0x0A])]
   \<and> map fst (trace (world (final_state
         (main_loop liblog0 True [(1, msg_main), (1, msg_radio), (1, msg_main)] s_one))))
     = [PrintLogLine 3 (''hello'' @ [CHR 0x0A]),
        Write 3 (''--------- beginning of unexpected'' @ [CHR 0x0A]),
        PrintLogLine 3 (''rad'' @ [CHR 0x0A]),
        Write 3 (''--------- switch to main'' @ [CHR 0x0A]),
        PrintLogLine 3 (''hello'' @ [CHR 0x0A])]"
  by (simp add: world_out_def world_eval buffer_eval loop_eval s_one_def msg_radio_def
      cong: let_weak_cong)

text \<open>
  Claim C6, amended. \<^verbatim>\<open>maybePrintStart\<close> writes nothing when at most one device is in play
  or in binary mode, and does nothing at all for a device whose flag is set when dividers
  are not forced. With more than one device, in formatted mode, and the flag unset or
  dividers forced, it makes exactly one write, of the banner: \<open>beginning of X\<close> when the flag
  is not set at the call, \<open>switch to X\<close> when it is; the write sets the flag when it
  succeeds and ends the process with \<open>-1\<close> when it fails. In the read loop a record of the
  same device as the record before is processed without any \<^verbatim>\<open>write\<close> of logcat.cpp
  (no banner, forced or not); a record of another device is processed after what
  \<^verbatim>\<open>maybePrintStart\<close> does for its device, with no other such write. So forced dividers
  give a banner at every change of device, not with every record.
\<close>

theorem banner_rules:
  "(g_devCount s \<le> 1 \<or> g_printBinary s \<noteq> 0
      \<longrightarrow> world (run_state (maybePrintStart d pd s)) = world s)
   \<and> (printed (deref s d) \<and> \<not> pd \<longrightarrow> maybePrintStart d pd s = Done s)
   \<and> (1 < g_devCount s \<and> g_printBinary s = 0 \<and> (\<not> printed (deref s d) \<or> pd) \<and> valid_ref s d
      \<longrightarrow> (\<exists>r. trace (world (run_state (maybePrintStart d pd s)))
                 = trace (world s)
                   @ [(Write (g_outFD s) (banner (printed (deref s d)) (device (deref s d))), r)]
               \<and> (case r of
                     Ok n \<Rightarrow> (\<exists>s'. maybePrintStart d pd s = Done s' \<and> printed (deref s' d))
                   | Err e \<Rightarrow> (\<exists>s'. maybePrintStart d pd s = Exit (-1) s'))))
   \<and> banner False nm = take 1023 (''--------- beginning of '' @ nm @ [CHR 0x0A])
   \<and> banner True nm = take 1023 (''--------- switch to '' @ nm @ [CHR 0x0A])
   \<and> (0 < ret \<and> g_printBinary s = 0 \<and> cur_dev s = Some (resolve_device L m s)
      \<longrightarrow> (\<exists>evs. trace (world (loop_state (main_loop_body L pd ret m s))) = trace (world s) @ evs
                 \<and> no_write evs))
   \<and> (0 < ret \<and> g_printBinary s = 0 \<and> cur_dev s \<noteq> Some (resolve_device L m s)
      \<longrightarrow> (\<exists>evs. trace (world (loop_state (main_loop_body L pd ret m s)))
                   = trace (world (run_state
                        (maybePrintStart (resolve_device L m s) pd
                           ((note_unexpected L m s)\<lparr>cur_dev := Some (resolve_device L m s)\<rparr>)))) @ evs
                 \<and> no_write evs))"
proof -
  have a: "g_devCount s \<le> 1 \<or> g_printBinary s \<noteq> 0
      \<longrightarrow> world (run_state (maybePrintStart d pd s)) = world s"
    using maybePrintStart_suppressed(2) by blast
  have b: "printed (deref s d) \<and> \<not> pd \<longrightarrow> maybePrintStart d pd s = Done s"
    using maybePrintStart_silent by blast
  have c: "1 < g_devCount s \<and> g_printBinary s = 0 \<and> (\<not> printed (deref s d) \<or> pd) \<and> valid_ref s d
      \<longrightarrow> (\<exists>r. trace (world (run_state (maybePrintStart d pd s)))
                 = trace (world s)
                   @ [(Write (g_outFD s) (banner (printed (deref s d)) (device (deref s d))), r)]
               \<and> (case r of
                     Ok n \<Rightarrow> (\<exists>s'. maybePrintStart d pd s = Done s' \<and> printed (deref s' d))
                   | Err e \<Rightarrow> (\<exists>s'. maybePrintStart d pd s = Exit (-1) s')))"
    using maybePrintStart_emits[of s d pd] by blast
  have e: "0 < ret \<and> g_printBinary s = 0 \<and> cur_dev s = Some (resolve_device L m s)
      \<longrightarrow> (\<exists>evs. trace (world (loop_state (main_loop_body L pd ret m s))) = trace (world s) @ evs
                 \<and> no_write evs)"
  proof
    assume h: "0 < ret \<and> g_printBinary s = 0 \<and> cur_dev s = Some (resolve_device L m s)"
    then have "0 < ret" "g_printBinary s = 0" by simp_all
    from body_formatted(1)[OF this, of L pd m] h note_unexpected_frame[of L m s]
    show "\<exists>evs. trace (world (loop_state (main_loop_body L pd ret m s))) = trace (world s) @ evs
                 \<and> no_write evs" by simp
  qed
  have f: "0 < ret \<and> g_printBinary s = 0 \<and> cur_dev s \<noteq> Some (resolve_device L m s)
      \<longrightarrow> (\<exists>evs. trace (world (loop_state (main_loop_body L pd ret m s)))
                   = trace (world (run_state
                        (maybePrintStart (resolve_device L m s) pd
                           ((note_unexpected L m s)\<lparr>cur_dev := Some (resolve_device L m s)\<rparr>)))) @ evs
                 \<and> no_write evs)"
  proof
    assume h: "0 < ret \<and> g_printBinary s = 0 \<and> cur_dev s \<noteq> Some (resolve_device L m s)"
    then have "0 < ret" "g_printBinary s = 0" by simp_all
    from body_formatted(1)[OF this, of L pd m] h
    show "\<exists>evs. trace (world (loop_state (main_loop_body L pd ret m s)))
                   = trace (world (run_state
                        (maybePrintStart (resolve_device L m s) pd
                           ((note_unexpected L m s)\<lparr>cur_dev := Some (resolve_device L m s)\<rparr>)))) @ evs
                 \<and> no_write evs" by simp
  qed
  from a b c e f banner_text[of nm] show ?thesis by blast
qed

theorem banner_rules_witness:
  "g_devCount s_one \<le> 1
   \<and> world (run_state (maybePrintStart (Registered 0) True s_one)) = world s_one
   \<and> 1 < g_devCount s_two \<and> g_printBinary s_two = 0 \<and> \<not> printed (deref s_two (Registered 0))
   \<and> valid_ref s_two (Registered 0)
   \<and> (\<exists>r. trace (world (run_state (maybePrintStart (Registered 0) True s_two)))
             = trace (world s_two) @ [(Write (g_outFD s_two) (banner False ''main''), r)])
   \<and> map fst (trace (world (run_state (maybePrintStart (Registered 0) True s_two))))
       = [Write 3 (''--------- beginning of main'' @ [CHR 0x0A])]
   \<and> printed (deref s_seen (Registered 0))
   \<and> maybePrintStart (Registered 0) False s_seen = Done s_seen
   \<and> map fst (trace (world (run_state (maybePrintStart (Registered 0) True s_seen))))
       = [Write 3 (''--------- switch to main'' @ [CHR 0x0A])]
   \<and> cur_dev s_seen = Some (resolve_device liblog0 msg_main s_seen)
   \<and> (\<exists>evs. trace (world (loop_state (main_loop_body liblog0 True 1 msg_main s_seen)))
              = trace (world s_seen) @ evs \<and> no_write evs)
   \<and> cur_dev s_two \<noteq> Some (resolve_device liblog0 msg_main s_two)
   \<and> (\<exists>evs. trace (world (loop_state (main_loop_body liblog0 True 1 msg_main s_two)))
              = trace (world (run_state
                   (maybePrintStart (resolve_device liblog0 msg_main s_two) True
                      ((note_unexpected liblog0 msg_main s_two)
                         \<lparr>cur_dev := Some (resolve_device liblog0 msg_main s_two)\<rparr>)))) @ evs
            \<and> no_write evs)"
proof -
  have h1: "g_devCount s_one \<le> 1" by (simp add: s_one_def)
  have h2: "1 < g_devCount s_two \<and> g_printBinary s_two = 0 \<and> \<not> printed (deref s_two (Registered 0))
     \<and> valid_ref s_two (Registered 0)"
    by (simp add: s_two_def init_state_def new_log_device_t_def)
  have h3: "printed (deref s_seen (Registered 0))"
    by (simp add: s_seen_def s_two_def init_state_def new_log_device_t_def)
  have h4: "cur_dev s_seen = Some (resolve_device liblog0 msg_main s_seen)"
    by (simp add: s_seen_def s_two_def init_state_def new_log_device_t_def resolve_device_def
        liblog0_def msg_main_def)
  have h5: "cur_dev s_two \<noteq> Some (resolve_device liblog0 msg_main s_two)"
    by (simp add: s_two_def init_state_def)
  have h6: "0 < (1::int) \<and> g_printBinary s_seen = 0" by (simp add: s_seen_def s_two_def init_state_def)
  have n: "device (deref s_two (Registered 0)) = ''main''"
    by (simp add: s_two_def init_state_def new_log_device_t_def)
  note A = banner_rules[of s_one "Registered 0" True "''main''" 1 liblog0 msg_main]
  note B = banner_rules[of s_two "Registered 0" True "''main''" 1 liblog0 msg_main]
  note C = banner_rules[of s_seen "Registered 0" False "''main''" 1 liblog0 msg_main]
  note D = banner_rules[of s_seen "Registered 0" True "''main''" 1 liblog0 msg_main]
  have a: "world (run_state (maybePrintStart (Registered 0) True s_one)) = world s_one"
    using A h1 by blast
  have b: "\<exists>r. trace (world (run_state (maybePrintStart (Registered 0) True s_two)))
             = trace (world s_two) @ [(Write (g_outFD s_two) (banner False ''main''), r)]"
    using B h2 n by auto
  have c: "maybePrintStart (Registered 0) False s_seen = Done s_seen"
    using C h3 by blast
  have d: "\<exists>evs. trace (world (loop_state (main_loop_body liblog0 True 1 msg_main s_seen)))
              = trace (world s_seen) @ evs \<and> no_write evs"
    using D h4 h6 by blast
  have e: "\<exists>evs. trace (world (loop_state (main_loop_body liblog0 True 1 msg_main s_two)))
              = trace (world (run_state
                   (maybePrintStart (resolve_device liblog0 msg_main s_two) True
                      ((note_unexpected liblog0 msg_main s_two)
                         \<lparr>cur_dev := Some (resolve_device liblog0 msg_main s_two)\<rparr>)))) @ evs
            \<and> no_write evs"
    using B h2 h5 by simp
  have ev: "map fst (trace (world (run_state (maybePrintStart (Registered 0) True s_two))))
       = [Write 3 (''--------- beginning of main'' @ [CHR 0x0A])]
     \<and> map fst (trace (world (run_state (maybePrintStart (Registered 0) True s_seen))))
       = [Write 3 (''--------- switch to main'' @ [CHR 0x0A])]"
    by (simp add: world_out_def world_eval buffer_eval loop_eval s_seen_def cong: let_weak_cong)
  from h1 h2 h3 h4 h5 a b c d e ev show ?thesis by blast
qed

lemma devs_mono_inv:
  assumes "devs_mono s s'" "g_printBinary s = 0" "i < length (devices s)" "printed (devices s ! i)"
    "others_differ s i"
  shows "g_printBinary s' = 0 \<and> i < length (devices s') \<and> printed (devices s' ! i)
       \<and> others_differ s' i \<and> device (devices s' ! i) = device (devices s ! i)"
  using assms by (auto simp: devs_mono_def others_differ_def)

lemma body_never_begins:
  assumes b: "g_printBinary s = 0" and i: "i < length (devices s)" and p: "printed (devices s ! i)"
    and o: "others_differ s i"
  shows "\<exists>evs. trace (world (loop_state (main_loop_body L pd ret m s))) = trace (world s) @ evs
            \<and> no_banner (banner False (device (devices s ! i))) evs"
    and "devs_mono s (loop_state (main_loop_body L pd ret m s))"
proof -
  let ?X = "device (devices s ! i)"
  let ?d = "resolve_device L m s"
  let ?s1 = "note_unexpected L m s"
  let ?s1' = "?s1\<lparr>cur_dev := Some ?d\<rparr>"
  let ?r2 = "if cur_dev s \<noteq> Some ?d then maybePrintStart ?d pd ?s1' else Done ?s1"
  note f = note_unexpected_frame[of L m s]
  have both: "(\<exists>evs. trace (world (loop_state (main_loop_body L pd ret m s))) = trace (world s) @ evs
            \<and> no_banner (banner False ?X) evs)
          \<and> devs_mono s (loop_state (main_loop_body L pd ret m s))"
  proof (cases "0 < ret")
    case False
    then have "ret \<le> 0" by simp
    from body_nonpositive_frame[OF this, of L pd m s] obtain c s' where
      st: "main_loop_body L pd ret m s = Stop c s'" "trace (world s') = trace (world s)" by blast
    have "devs_mono s (loop_state (main_loop_body L pd ret m s))"
      using \<open>ret \<le> 0\<close> by (auto simp: main_loop_body_def devs_mono_def on_world_def)
    with st show ?thesis by simp
  next
    case True
    from body_formatted[OF True b, of L pd m] obtain evs where
      e: "trace (world (loop_state (main_loop_body L pd ret m s))) = trace (world (run_state ?r2)) @ evs"
         "no_write evs"
      and mono: "devs_mono s (loop_state (main_loop_body L pd ret m s))" by blast
    have "\<exists>evs0. trace (world (run_state ?r2)) = trace (world s) @ evs0 \<and> no_banner (banner False ?X) evs0"
    proof (cases "cur_dev s \<noteq> Some ?d")
      case False
      with f show ?thesis by simp
    next
      case True
      from maybePrintStart_events[of ?d pd ?s1'] obtain evs0 where
        e0: "trace (world (run_state (maybePrintStart ?d pd ?s1'))) = trace (world ?s1') @ evs0"
            "evs0 = [] \<or> (\<exists>r. evs0 = [(Write (g_outFD ?s1') (banner (printed (deref ?s1' ?d)) (device (deref ?s1' ?d))), r)])"
        by blast
      have ne: "banner (printed (deref ?s1' ?d)) (device (deref ?s1' ?d)) \<noteq> banner False ?X"
      proof (cases ?d)
        case Unexpected
        then show ?thesis using o f banner_differ[of "device (unexpected s)" ?X]
          by (cases "printed (unexpected s)") (simp_all add: others_differ_def)
      next
        case (Registered j)
        with resolve_device_valid[of s L m] have j: "j < length (devices s)" by simp
        show ?thesis
        proof (cases "j = i")
          case True
          with Registered p f show ?thesis using banner_differ[of ?X ?X] by simp
        next
          case False
          with o j have "banner False (device (devices s ! j)) \<noteq> banner False ?X"
            by (simp add: others_differ_def)
          with Registered f show ?thesis using banner_differ[of "device (devices s ! j)" ?X]
            by (cases "printed (devices s ! j)") simp_all
        qed
      qed
      from e0 ne True f show ?thesis by auto
    qed
    then obtain evs0 where e0: "trace (world (run_state ?r2)) = trace (world s) @ evs0"
      "no_banner (banner False ?X) evs0" by blast
    have "trace (world (loop_state (main_loop_body L pd ret m s))) = trace (world s) @ (evs0 @ evs)"
      using e(1) e0(1) by simp
    moreover have "no_banner (banner False ?X) (evs0 @ evs)"
      using e0(2) no_write_no_banner[OF e(2)] by simp
    ultimately show ?thesis using mono by blast
  qed
  from both show "\<exists>evs. trace (world (loop_state (main_loop_body L pd ret m s))) = trace (world s) @ evs
            \<and> no_banner (banner False ?X) evs" by blast
  from both show "devs_mono s (loop_state (main_loop_body L pd ret m s))" by blast
qed

lemma loop_never_begins:
  assumes "g_printBinary s = 0" "i < length (devices s)" "printed (devices s ! i)" "others_differ s i"
  shows "\<exists>evs. trace (world (final_state (main_loop L pd reads s))) = trace (world s) @ evs
            \<and> no_banner (banner False (device (devices s ! i))) evs
            \<and> printed (devices (final_state (main_loop L pd reads s)) ! i)"
  using assms
proof (induction reads arbitrary: s)
  case Nil
  then show ?case by simp
next
  case (Cons a reads)
  let ?b = "main_loop_body L pd (fst a) (snd a) s"
  from body_never_begins[OF Cons.prems, of L pd "fst a" "snd a"] obtain evs where
    e: "trace (world (loop_state ?b)) = trace (world s) @ evs"
       "no_banner (banner False (device (devices s ! i))) evs"
    and mono: "devs_mono s (loop_state ?b)" by blast
  from devs_mono_inv[OF mono Cons.prems]
  have inv: "g_printBinary (loop_state ?b) = 0" "i < length (devices (loop_state ?b))"
    "printed (devices (loop_state ?b) ! i)" "others_differ (loop_state ?b) i"
    and nm: "device (devices (loop_state ?b) ! i) = device (devices s ! i)" by simp_all
  show ?case
  proof (cases ?b)
    case (Stop c s')
    with e inv show ?thesis by auto
  next
    case (Continue s')
    from Cons.IH[of s'] inv Continue obtain evs' where
      e': "trace (world (final_state (main_loop L pd reads s'))) = trace (world s') @ evs'"
          "no_banner (banner False (device (devices s' ! i))) evs'"
          "printed (devices (final_state (main_loop L pd reads s')) ! i)" by auto
    have "trace (world (final_state (main_loop L pd (a # reads) s))) = trace (world s) @ (evs @ evs')"
      using Continue e e' by simp
    moreover have "no_banner (banner False (device (devices s ! i))) (evs @ evs')"
      using e(2) e'(2) nm Continue by simp
    moreover have "printed (devices (final_state (main_loop L pd (a # reads) s)) ! i)"
      using Continue e'(3) by simp
    ultimately show ?thesis by blast
  qed
qed

text \<open>
  Claim C10. \<^verbatim>\<open>maybePrintStart\<close> sets the flag of a device whose banner is suppressed (one
  device in play, or binary mode) and writes nothing. A call for a device whose flag is set
  writes nothing or the banner \<open>switch to X\<close>. And in formatted mode, once the flag of a
  registered device is set, no run of the read loop writes \<open>beginning of X\<close> for it, whatever
  is read and also after \<^verbatim>\<open>g_devCount\<close> has become 2, and the flag stays set (no other
  device is to have the same banner text, which holds when the names differ and are not
  too long).
\<close>

theorem announced_while_suppressed:
  "(\<not> printed (deref s d) \<and> (g_devCount s \<le> 1 \<or> g_printBinary s \<noteq> 0) \<and> valid_ref s d
      \<longrightarrow> (\<exists>s'. maybePrintStart d pd s = Done s' \<and> world s' = world s \<and> printed (deref s' d)))
   \<and> (printed (deref s d)
      \<longrightarrow> (\<exists>evs. trace (world (run_state (maybePrintStart d pd s))) = trace (world s) @ evs
                 \<and> (evs = [] \<or> (\<exists>r. evs = [(Write (g_outFD s) (banner True (device (deref s d))), r)]))))
   \<and> (g_printBinary s = 0 \<and> i < length (devices s) \<and> printed (devices s ! i) \<and> others_differ s i
      \<longrightarrow> (\<exists>evs. trace (world (final_state (main_loop L pd reads s))) = trace (world s) @ evs
                 \<and> no_banner (banner False (device (devices s ! i))) evs
                 \<and> printed (devices (final_state (main_loop L pd reads s)) ! i)))"
proof -
  have a: "\<not> printed (deref s d) \<and> (g_devCount s \<le> 1 \<or> g_printBinary s \<noteq> 0) \<and> valid_ref s d
      \<longrightarrow> (\<exists>s'. maybePrintStart d pd s = Done s' \<and> world s' = world s \<and> printed (deref s' d))"
  proof
    assume h: "\<not> printed (deref s d) \<and> (g_devCount s \<le> 1 \<or> g_printBinary s \<noteq> 0) \<and> valid_ref s d"
    then have "maybePrintStart d pd s = Done (assign d ((deref s d)\<lparr>printed := True\<rparr>) s)"
      using maybePrintStart_suppressed(1)[of s d pd] by simp
    moreover have "world (assign d ((deref s d)\<lparr>printed := True\<rparr>) s) = world s" by (cases d) simp_all
    moreover have "printed (deref (assign d ((deref s d)\<lparr>printed := True\<rparr>) s) d)"
      using h deref_assign[of s d] by simp
    ultimately show "\<exists>s'. maybePrintStart d pd s = Done s' \<and> world s' = world s \<and> printed (deref s' d)"
      by blast
  qed
  have b: "printed (deref s d)
      \<longrightarrow> (\<exists>evs. trace (world (run_state (maybePrintStart d pd s))) = trace (world s) @ evs
                 \<and> (evs = [] \<or> (\<exists>r. evs = [(Write (g_outFD s) (banner True (device (deref s d))), r)])))"
    using maybePrintStart_events[of d pd s] by auto
  have c: "g_printBinary s = 0 \<and> i < length (devices s) \<and> printed (devices s ! i) \<and> others_differ s i
      \<longrightarrow> (\<exists>evs. trace (world (final_state (main_loop L pd reads s))) = trace (world s) @ evs
                 \<and> no_banner (banner False (device (devices s ! i))) evs
                 \<and> printed (devices (final_state (main_loop L pd reads s)) ! i))"
    using loop_never_begins[of s i L pd reads] by blast
  from a b c show ?thesis by blast
qed

theorem announced_while_suppressed_witness:
  "\<not> printed (deref (s_one\<lparr>cur_dev := Some (Registered 0)\<rparr>) (Registered 0))
   \<and> g_devCount (s_one\<lparr>cur_dev := Some (Registered 0)\<rparr>) \<le> 1
   \<and> valid_ref (s_one\<lparr>cur_dev := Some (Registered 0)\<rparr>) (Registered 0)
   \<and> maybePrintStart (Registered 0) True (s_one\<lparr>cur_dev := Some (Registered 0)\<rparr>) = Done s_one_seen
   \<and> world s_one_seen = world s_one
   \<and> printed (deref s_one_seen (Registered 0))
   \<and> g_printBinary s_one_seen = 0 \<and> 0 < length (devices s_one_seen)
   \<and> printed (devices s_one_seen ! 0) \<and> others_differ s_one_seen 0
   \<and> (\<exists>evs. trace (world (final_state
                 (main_loop liblog0 True [(1, msg_radio), (1, msg_main)] s_one_seen)))
              = trace (world s_one_seen) @ evs
            \<and> no_banner (banner False (device (devices s_one_seen ! 0))) evs)
   \<and> device (devices s_one_seen ! 0) = ''main''
   \<and> map fst (trace (world (final_state
                 (main_loop liblog0 True [(1, msg_radio), (1, msg_main)] s_one_seen))))
       = [Write 3 (''--------- beginning of unexpected'' @ [CHR 0x0A]),
          PrintLogLine 3 (''rad'' @ [CHR 0x0A]),
          Write 3 (''--------- switch to main'' @ [CHR 0x0A]),
          PrintLogLine 3 (''hello'' @ [CHR 0x0A])]"
proof -
  let ?s = "s_one\<lparr>cur_dev := Some (Registered 0)\<rparr>"
  have h1: "\<not> printed (deref ?s (Registered 0)) \<and> g_devCount ?s \<le> 1 \<and> valid_ref ?s (Registered 0)"
    by (simp add: s_one_def init_state_def new_log_device_t_def)
  have run: "maybePrintStart (Registered 0) True ?s = Done s_one_seen"
    by (simp add: maybePrintStart_def s_one_seen_def s_one_def init_state_def new_log_device_t_def)
  have w: "world s_one_seen = world s_one" by (simp add: s_one_seen_def)
  have h2: "g_printBinary s_one_seen = 0 \<and> 0 < length (devices s_one_seen)
     \<and> printed (devices s_one_seen ! 0) \<and> others_differ s_one_seen 0"
    by (simp add: s_one_seen_def s_one_def init_state_def new_log_device_t_def others_differ_def
        banner_def)
  have nm: "device (devices s_one_seen ! 0) = ''main''"
    by (simp add: s_one_seen_def new_log_device_t_def)
  note T = announced_while_suppressed[where s = "?s" and d = "Registered 0" and pd = True]
  from T h1 run have p: "printed (deref s_one_seen (Registered 0))"
    by (simp add: s_one_seen_def)
  from announced_while_suppressed[where s = s_one_seen and i = 0 and L = liblog0 and pd = True
      and reads = "[(1, msg_radio), (1, msg_main)]"] h2
  have c: "\<exists>evs. trace (world (final_state
                 (main_loop liblog0 True [(1, msg_radio), (1, msg_main)] s_one_seen)))
              = trace (world s_one_seen) @ evs
            \<and> no_banner (banner False (device (devices s_one_seen ! 0))) evs"
    by blast
  have ev: "map fst (trace (world (final_state
                 (main_loop liblog0 True [(1, msg_radio), (1, msg_main)] s_one_seen))))
       = [Write 3 (''--------- beginning of unexpected'' @ [CHR 0x0A]),
          PrintLogLine 3 (''rad'' @ [CHR 0x0A]),
          Write 3 (''--------- switch to main'' @ [CHR 0x0A]),
          PrintLogLine 3 (''hello'' @ [CHR 0x0A])]"
    by (simp add: world_out_def world_eval buffer_eval loop_eval s_one_seen_def s_one_def
        msg_radio_def cong: let_weak_cong)
  from h1 run w p h2 c nm ev show ?thesis by blast
qed

section \<open>The device list\<close>

text \<open>
  Claim C9 as it is written fails: \<^verbatim>\<open>logcat -b main -b main\<close> registers \<open>main\<close> twice, as
  \<^verbatim>\<open>case 'b'\<close> appends to the list without looking at it.
\<close>

theorem duplicate_names_counterexample:
  "\<not> distinct (map device (devices (register_devices liblog0 [''main'', ''main''] (init_state world_out))))"
  by (simp add: register_devices_def opt_b_def default_devices_def init_state_def new_log_device_t_def)

lemma select_all_loop_frame:
  "distinct (map device (devices s))
   \<Longrightarrow> \<forall>n \<in> set (map device (devices s)). android_name_to_log_id L n < i
   \<Longrightarrow> distinct (map device (devices (select_all_loop L i s)))"
proof (induction L i s rule: select_all_loop.induct)
  case (1 L i s)
  show ?case
  proof (cases "i < LOG_ID_MAX L")
    case False
    then show ?thesis using 1(3) by (subst select_all_loop.simps) simp
  next
    case True
    let ?name = "android_log_id_to_name L i"
    show ?thesis
    proof (cases "android_name_to_log_id L ?name \<noteq> i")
      case ne: True
      have "select_all_loop L i s = select_all_loop L (i + 1) s"
        using True ne by (subst select_all_loop.simps) (simp add: Let_def)
      moreover have "distinct (map device (devices (select_all_loop L (i + 1) s)))"
        using 1(1)[OF True refl refl ne 1(3)] 1(4) by fastforce
      ultimately show ?thesis by simp
    next
      case eq: False
      let ?s' = "s\<lparr>devices := devices s @ [new_log_device_t ?name (?name = ''events'')],
                    g_devCount := g_devCount s + 1\<rparr>"
      have unf: "select_all_loop L i s = select_all_loop L (i + 1) ?s'"
        using True eq by (subst select_all_loop.simps) (simp add: Let_def)
      have notin: "?name \<notin> set (map device (devices s))"
        using 1(4) eq by fastforce
      have d: "distinct (map device (devices ?s'))"
        using 1(3) notin by (simp add: new_log_device_t_def)
      have b: "\<forall>n \<in> set (map device (devices ?s')). android_name_to_log_id L n < i + 1"
        using 1(4) eq by (fastforce simp: new_log_device_t_def)
      from 1(2)[OF True refl refl _ d b] eq unf show ?thesis by simp
    qed
  qed
qed

lemma fold_opt_b_explicit:
  "''all'' \<notin> set bs \<Longrightarrow>
   map device (devices (fold (opt_b L) bs s)) = map device (devices s) @ bs"
  by (induction bs arbitrary: s) (auto simp: opt_b_def new_log_device_t_def)

text \<open>
  Claim C9, amended. After \<^verbatim>\<open>-b all\<close> the names in the device list are distinct, for any
  liblog (a buffer is taken only if its name maps back to its id); the default list has
  distinct names; another \<^verbatim>\<open>-b\<close> appends its name whatever the list holds, so the names
  are then distinct exactly when they were and the name is new. For a command line of
  \<^verbatim>\<open>-b\<close> options without \<open>all\<close> the names of the list are distinct exactly when the
  options are.
\<close>

theorem registry_names:
  "distinct (map device (devices (opt_b L ''all'' s)))
   \<and> (devices s = [] \<longrightarrow> distinct (map device (devices (default_devices L s))))
   \<and> (optarg \<noteq> ''all'' \<longrightarrow>
        (distinct (map device (devices (opt_b L optarg s)))
         \<longleftrightarrow> distinct (map device (devices s)) \<and> optarg \<notin> set (map device (devices s))))
   \<and> (''all'' \<notin> set bs \<and> bs \<noteq> [] \<and> devices s = [] \<longrightarrow>
        (distinct (map device (devices (register_devices L bs s))) \<longleftrightarrow> distinct bs))"
proof -
  have a: "distinct (map device (devices (opt_b L ''all'' s)))"
    using select_all_loop_frame[of "s\<lparr>devices := [], g_devCount := 0\<rparr>" L "LOG_ID_MIN L"]
    by (simp add: opt_b_def)
  have b: "devices s = [] \<longrightarrow> distinct (map device (devices (default_devices L s)))"
    by (simp add: default_devices_def new_log_device_t_def Let_def)
  have c: "optarg \<noteq> ''all'' \<longrightarrow>
        (distinct (map device (devices (opt_b L optarg s)))
         \<longleftrightarrow> distinct (map device (devices s)) \<and> optarg \<notin> set (map device (devices s)))"
    by (auto simp: opt_b_def new_log_device_t_def)
  have d: "''all'' \<notin> set bs \<and> bs \<noteq> [] \<and> devices s = [] \<longrightarrow>
        (distinct (map device (devices (register_devices L bs s))) \<longleftrightarrow> distinct bs)"
  proof
    assume h: "''all'' \<notin> set bs \<and> bs \<noteq> [] \<and> devices s = []"
    then have m: "map device (devices (fold (opt_b L) bs s)) = bs"
      using fold_opt_b_explicit[of bs L s] by simp
    with h have "devices (fold (opt_b L) bs s) \<noteq> []" by auto
    then have "devices (register_devices L bs s) = devices (fold (opt_b L) bs s)"
      by (simp add: register_devices_def default_devices_def)
    with m show "distinct (map device (devices (register_devices L bs s))) \<longleftrightarrow> distinct bs" by simp
  qed
  from a b c d show ?thesis by blast
qed

theorem registry_names_witness:
  "map device (devices (opt_b liblog0 ''all'' (init_state world_out)))
     = [''main'', ''radio'', ''events'', ''system'', ''crash'']
   \<and> distinct (map device (devices (opt_b liblog0 ''all'' (init_state world_out))))
   \<and> devices (init_state world_out) = []
   \<and> map device (devices (default_devices liblog0 (init_state world_out)))
       = [''main'', ''system'', ''crash'']
   \<and> distinct (map device (devices (default_devices liblog0 (init_state world_out))))
   \<and> ''main'' \<noteq> ''all''
   \<and> distinct (map device (devices (opt_b liblog0 ''main'' (init_state world_out))))
   \<and> ''all'' \<notin> set [''main'', ''events''] \<and> [''main'', ''events''] \<noteq> []
   \<and> distinct (map device (devices (register_devices liblog0 [''main'', ''events''] (init_state world_out))))"
proof -
  have e: "map device (devices (opt_b liblog0 ''all'' (init_state world_out)))
     = [''main'', ''radio'', ''events'', ''system'', ''crash'']
   \<and> map device (devices (default_devices liblog0 (init_state world_out)))
       = [''main'', ''system'', ''crash'']"
    by (simp add: opt_b_def select_all_loop.simps default_devices_def liblog0_def init_state_def
        new_log_device_t_def Let_def cong: let_weak_cong)
  have h: "devices (init_state world_out) = []" by (simp add: init_state_def)
  note T = registry_names[where L = liblog0 and s = "init_state world_out" and optarg = "''main''"
      and bs = "[''main'', ''events'']"]
  from T h e show ?thesis by simp
qed

section \<open>The statistics and prune list query\<close>

lemma c_str_terminated:
  assumes "NUL \<notin> set b" "length b < unat len"
  shows "c_str (terminated len b) = b"
proof -
  let ?n = "unat len"
  let ?k = "?n - length b"
  have k: "0 < ?k" using assms(2) by simp
  have "fit ?n b = b @ replicate ?k NUL" using assms(2) by (simp add: fit_def)
  moreover have "(b @ replicate ?k NUL)[?n - 1 := NUL] = b @ replicate ?k NUL"
  proof -
    have "\<not> ?n - 1 < length b" using assms(2) by simp
    then have "(b @ replicate ?k NUL)[?n - 1 := NUL] = b @ (replicate ?k NUL)[?n - 1 - length b := NUL]"
      by (simp only: list_update_append if_False)
    also have "(replicate ?k NUL)[?n - 1 - length b := NUL] = replicate ?k NUL"
      by (simp add: list_eq_iff_nth_eq nth_list_update)
    finally show ?thesis .
  qed
  ultimately have t: "terminated len b = b @ replicate ?k NUL" by (simp add: terminated_def)
  obtain k' where k': "?k = Suc k'" using k by (cases ?k) simp_all
  have "takeWhile (\<lambda>c. c \<noteq> NUL) (b @ replicate ?k NUL) = b"
    using assms(1) unfolding k' by (subst takeWhile_append2) auto
  with t show ?thesis by (simp add: c_str_def)
qed

lemma atol_range: "LONG_MIN \<le> atol s \<and> atol s \<le> LONG_MAX"
  by (simp add: atol_def Let_def LONG_MIN_def LONG_MAX_def)

lemma declared_size_count:
  "declared_size len b = word_of_int (atol (c_str (terminated len b)) + 1)"
  by (simp add: declared_size_def)

lemma uint_size_of_count:
  assumes "LONG_MIN \<le> a" "a \<le> LONG_MAX"
  shows "uint (word_of_int (a + 1) :: size_t) = (if 0 \<le> a + 1 then a + 1 else a + 1 + 2 ^ 64)"
proof -
  have "uint (word_of_int k :: size_t) = k mod 2 ^ 64" for k
    by (simp add: uint_word_of_int take_bit_eq_mod)
  from this[of "a + 1"] have u: "uint (word_of_int (a + 1) :: size_t) = (a + 1) mod 2 ^ 64" .
  show ?thesis
  proof (cases "0 \<le> a + 1")
    case True
    moreover have "a + 1 < 2 ^ 64" using assms(2) by (simp add: LONG_MAX_def)
    ultimately show ?thesis using u by simp
  next
    case False
    have b1: "0 \<le> a + 1 + (2 ^ 64 :: int)" using assms(1) by (simp add: LONG_MIN_def)
    have b2: "a + 1 + 2 ^ 64 < (2 ^ 64 :: int)" using False by simp
    have e: "(a + 1 + 2 ^ 64) mod 2 ^ 64 = (a + 1) mod (2 ^ 64 :: int)" by (rule mod_add_self2)
    have "(a + 1 + 2 ^ 64) mod 2 ^ 64 = a + 1 + (2 ^ 64 :: int)"
      using b1 b2 by (rule mod_pos_pos_trivial)
    with e have "(a + 1) mod 2 ^ 64 = a + 1 + (2 ^ 64 :: int)" by (simp only:)
    with False u show ?thesis by simp
  qed
qed

lemma degenerate_counts:
  "declared_size len b < 4 \<longleftrightarrow> - 1 \<le> atol (c_str (terminated len b)) \<and> atol (c_str (terminated len b)) \<le> 2"
proof -
  let ?a = "atol (c_str (terminated len b))"
  from atol_range[of "c_str (terminated len b)"] have r: "LONG_MIN \<le> ?a" "?a \<le> LONG_MAX" by simp_all
  have "declared_size len b < 4 \<longleftrightarrow> uint (word_of_int (?a + 1) :: size_t) < 4"
    by (simp add: declared_size_count word_less_def)
  also have "\<dots> \<longleftrightarrow> - 1 \<le> ?a \<and> ?a \<le> 2"
    using r(1) unfolding uint_size_of_count[OF r] by (auto simp: LONG_MIN_def)
  finally show ?thesis .
qed

lemma large_count_size:
  assumes "8192 \<le> a" "a \<le> LONG_MAX"
  shows "(8192 :: size_t) < word_of_int (a + 1)"
proof -
  have "LONG_MIN \<le> a" using assms(1) by (simp add: LONG_MIN_def)
  from uint_size_of_count[OF this assms(2)] assms(1)
  have "uint (word_of_int (a + 1) :: size_t) = a + 1" by simp
  with assms(1) show ?thesis by (simp add: word_less_def)
qed


lemma query_loop_retry:
  assumes "0 \<le> retry" "alloc len" "\<not> declared_size len (fst (q sv (unat len))) < 4"
    "len < declared_size len (fst (q sv (unat len)))"
  shows "query_loop q alloc retry len sv att
         = query_loop q alloc (retry - 1) (declared_size len (fst (q sv (unat len))))
             (snd (q sv (unat len))) (att @ [len])"
  using assms by (subst query_loop.simps) (simp add: Let_def not_le)

lemma query_loop_accept:
  assumes "0 \<le> retry" "alloc len" "\<not> declared_size len (fst (q sv (unat len))) < 4"
    "declared_size len (fst (q sv (unat len))) \<le> len"
  shows "query_loop q alloc retry len sv att
         = \<lparr>q_buf = Array (terminated len (fst (q sv (unat len)))),
            q_len = declared_size len (fst (q sv (unat len))),
            q_service = snd (q sv (unat len)), q_attempts = att @ [len], q_bad_alloc = False\<rparr>"
  using assms by (subst query_loop.simps) (simp add: Let_def)

lemma query_loop_degenerate:
  assumes "0 \<le> retry" "alloc len" "declared_size len (fst (q sv (unat len))) < 4"
  shows "query_loop q alloc retry len sv att
         = \<lparr>q_buf = Null, q_len = len, q_service = snd (q sv (unat len)), q_attempts = att @ [len],
            q_bad_alloc = False\<rparr>"
  using assms by (subst query_loop.simps) (simp add: Let_def)

lemma query_loop_bad_alloc:
  assumes "0 \<le> retry" "\<not> alloc len"
  shows "query_loop q alloc retry len sv att
         = \<lparr>q_buf = Dangling, q_len = len, q_service = sv, q_attempts = att, q_bad_alloc = True\<rparr>"
  using assms by (subst query_loop.simps) simp

lemma query_loop_exhausted:
  assumes "retry < 0"
  shows "query_loop q alloc retry len sv att
         = \<lparr>q_buf = Dangling, q_len = len, q_service = sv, q_attempts = att, q_bad_alloc = False\<rparr>"
  using assms by (subst query_loop.simps) simp

text \<open>\<^verbatim>\<open>buf\<close> is \<^verbatim>\<open>NULL\<close> after the loop only by the assignment in the branch
  \<^verbatim>\<open>ret < 4\<close>: not when \<^verbatim>\<open>new\<close> has thrown.\<close>

lemma query_loop_thrown_buf:
  "q_bad_alloc (query_loop q alloc retry len sv att)
   \<Longrightarrow> q_buf (query_loop q alloc retry len sv att) = Dangling"
proof (induction "nat (retry + 1)" arbitrary: retry len sv att)
  case 0
  then have "retry < 0" by simp
  from query_loop_exhausted[OF this, of q alloc len sv att] "0.prems" show ?case by simp
next
  case (Suc n)
  let ?ret = "declared_size len (fst (q sv (unat len)))"
  from Suc(2) have r: "0 \<le> retry" and n: "n = nat (retry - 1 + 1)" by simp_all
  show ?case
  proof (cases "alloc len")
    case False
    from query_loop_bad_alloc[of retry alloc len q sv att] r False show ?thesis by simp
  next
    case True
    consider "?ret < 4" | "\<not> ?ret < 4" "?ret \<le> len" | "\<not> ?ret < 4" "len < ?ret"
      using linorder_not_le by blast
    then show ?thesis
    proof cases
      case 1
      from query_loop_degenerate[of retry alloc len q sv att] r True 1 Suc(3) show ?thesis by simp
    next
      case 2
      from query_loop_accept[of retry alloc len q sv att] r True 2 Suc(3) show ?thesis by simp
    next
      case 3
      from query_loop_retry[of retry alloc len q sv att] r True 3 Suc(3) Suc(1)[OF n] show ?thesis by simp
    qed
  qed
qed

text \<open>An allocation that fails ends the process by the exception, not by \<^verbatim>\<open>exit\<close>.\<close>

lemma bad_alloc_aborts:
  assumes "\<not> alloc 8192"
  shows "admin_query q alloc sv w = Aborted"
  using query_loop_bad_alloc[of 32 alloc 8192 q sv "[]"] assms by (simp add: admin_query_def)

text \<open>Two answers that give the same size \<open>S > 8192\<close>, at the first size 8192 and at the
  size \<open>S\<close>: the loop asks twice when both arrays can be allocated, and never more than
  twice.\<close>

lemma query_loop_same_size:
  assumes d1: "declared_size 8192 (fst (q sv 8192)) = S"
    and d2: "declared_size S (fst (q (snd (q sv 8192)) (unat S))) = S"
    and big: "8192 < S"
  shows "alloc 8192 \<and> alloc S \<longrightarrow>
          query_loop q alloc 32 8192 sv []
            = \<lparr>q_buf = Array (terminated S (fst (q (snd (q sv 8192)) (unat S)))), q_len = S,
               q_service = snd (q (snd (q sv 8192)) (unat S)), q_attempts = [8192, S],
               q_bad_alloc = False\<rparr>"
    and "length (q_attempts (query_loop q alloc 32 8192 sv [])) \<le> 2"
proof -
  have u: "unat (8192 :: size_t) = 8192" by simp
  have n4: "\<not> S < 4" using big by (simp add: word_less_nat_alt)
  have first: "alloc 8192 \<Longrightarrow> query_loop q alloc 32 8192 sv []
      = query_loop q alloc 31 S (snd (q sv 8192)) [8192]"
    using query_loop_retry[of 32 alloc 8192 q sv "[]"] d1 n4 big by (simp add: u)
  have second: "alloc S \<Longrightarrow> query_loop q alloc 31 S (snd (q sv 8192)) [8192]
      = \<lparr>q_buf = Array (terminated S (fst (q (snd (q sv 8192)) (unat S)))), q_len = S,
               q_service = snd (q (snd (q sv 8192)) (unat S)), q_attempts = [8192, S],
               q_bad_alloc = False\<rparr>"
    using query_loop_accept[of 31 alloc S q "snd (q sv 8192)" "[8192]"] d2 n4 by simp
  show two: "alloc 8192 \<and> alloc S \<longrightarrow>
          query_loop q alloc 32 8192 sv []
            = \<lparr>q_buf = Array (terminated S (fst (q (snd (q sv 8192)) (unat S)))), q_len = S,
               q_service = snd (q (snd (q sv 8192)) (unat S)), q_attempts = [8192, S],
               q_bad_alloc = False\<rparr>"
    using first second by simp
  show "length (q_attempts (query_loop q alloc 32 8192 sv [])) \<le> 2"
  proof (cases "alloc 8192")
    case False
    then show ?thesis using query_loop_bad_alloc[of 32 alloc 8192 q sv "[]"] by simp
  next
    case True
    show ?thesis
    proof (cases "alloc S")
      case False
      then show ?thesis
        using first[OF True] query_loop_bad_alloc[of 31 alloc S q "snd (q sv 8192)" "[8192]"] by simp
    next
      case a2: True
      with True two show ?thesis by simp
    qed
  qed
qed

text \<open>
  Claim C4, amended. The size the loop takes from an answer is \<^verbatim>\<open>ret = atol(buf) + 1\<close>: the
  leading decimal count of the answer and one more byte, not the count itself. A retry asks
  again with a buffer of exactly that size, and one less in the retry budget. So for a
  service whose answers declare the same count \<open>c \<ge> 8192\<close> at the first size 8192 and at
  the size \<open>c + 1\<close>, the loop asks twice when both arrays can be allocated, with 8192 and
  then with \<open>c + 1\<close>, and accepts the second answer; and it never asks more than twice.
\<close>

theorem query_two_attempts:
  assumes c1: "atol (c_str (terminated 8192 (fst (q sv 8192)))) = c"
    and c2: "atol (c_str (terminated (word_of_int (c + 1))
                     (fst (q (snd (q sv 8192)) (unat (word_of_int (c + 1) :: size_t)))))) = c"
    and big: "8192 \<le> c"
  shows "(0 \<le> retry \<and> alloc len \<and> \<not> declared_size len (fst (q sv' (unat len))) < 4
          \<and> len < declared_size len (fst (q sv' (unat len)))
          \<longrightarrow> query_loop q alloc retry len sv' att
              = query_loop q alloc (retry - 1)
                  (word_of_int (atol (c_str (terminated len (fst (q sv' (unat len))))) + 1))
                  (snd (q sv' (unat len))) (att @ [len]))
    \<and> (alloc 8192 \<and> alloc (word_of_int (c + 1)) \<longrightarrow>
          query_loop q alloc 32 8192 sv []
            = \<lparr>q_buf = Array (terminated (word_of_int (c + 1))
                                (fst (q (snd (q sv 8192)) (unat (word_of_int (c + 1) :: size_t))))),
               q_len = word_of_int (c + 1),
               q_service = snd (q (snd (q sv 8192)) (unat (word_of_int (c + 1) :: size_t))),
               q_attempts = [8192, word_of_int (c + 1)], q_bad_alloc = False\<rparr>)
    \<and> length (q_attempts (query_loop q alloc 32 8192 sv [])) \<le> 2"
proof -
  let ?S = "word_of_int (c + 1) :: size_t"
  have step: "0 \<le> retry \<and> alloc len \<and> \<not> declared_size len (fst (q sv' (unat len))) < 4
          \<and> len < declared_size len (fst (q sv' (unat len)))
          \<longrightarrow> query_loop q alloc retry len sv' att
              = query_loop q alloc (retry - 1)
                  (word_of_int (atol (c_str (terminated len (fst (q sv' (unat len))))) + 1))
                  (snd (q sv' (unat len))) (att @ [len])"
    using query_loop_retry[of retry alloc len q sv' att]
    unfolding declared_size_count by blast
  have d1: "declared_size 8192 (fst (q sv 8192)) = ?S"
    unfolding declared_size_count c1 ..
  have d2: "declared_size ?S (fst (q (snd (q sv 8192)) (unat ?S))) = ?S"
    unfolding declared_size_count c2 ..
  from atol_range[of "c_str (terminated 8192 (fst (q sv 8192)))"] c1 have "c \<le> LONG_MAX" by simp
  from large_count_size[OF big this] have b: "8192 < ?S" .
  from step query_loop_same_size[OF d1 d2 b, of alloc] show ?thesis by blast
qed

text \<open>
  Claim C5, amended. The loop stops at once with \<^verbatim>\<open>buf = NULL\<close>, whatever is left of the
  retry budget, when the size taken from an answer is below 4; the size is the leading count
  plus one as a \<^verbatim>\<open>size_t\<close>, so this is when the count is \<open>-1\<close>, 0, 1 or 2. The query ends
  with \<^verbatim>\<open>EXIT_FAILURE\<close> and the message \<open>failed to read data\<close> exactly when the loop leaves
  \<^verbatim>\<open>buf\<close> at \<^verbatim>\<open>NULL\<close>, so a degenerate first answer ends the process with that status
  after one attempt; nothing is printed on standard output, one line goes to standard
  error, and \<^verbatim>\<open>EXIT_FAILURE\<close> is not 0.
\<close>

theorem degenerate_answer_fails:
  "(0 \<le> retry \<and> alloc len \<and> declared_size len (fst (q sv (unat len))) < 4
      \<longrightarrow> query_loop q alloc retry len sv att
          = \<lparr>q_buf = Null, q_len = len, q_service = snd (q sv (unat len)), q_attempts = att @ [len],
             q_bad_alloc = False\<rparr>)
   \<and> (declared_size len b < 4
      \<longleftrightarrow> - 1 \<le> atol (c_str (terminated len b)) \<and> atol (c_str (terminated len b)) \<le> 2)
   \<and> (q_buf (query_loop q alloc 32 8192 sv []) = Null
      \<longleftrightarrow> admin_query q alloc sv w = Ended EXIT_FAILURE (perror ''failed to read data'' w))
   \<and> (alloc 8192 \<and> declared_size 8192 (fst (q sv 8192)) < 4
      \<longrightarrow> admin_query q alloc sv w = Ended EXIT_FAILURE (perror ''failed to read data'' w)
        \<and> q_attempts (query_loop q alloc 32 8192 sv []) = [8192])
   \<and> stdout_text (perror ''failed to read data'' w) = stdout_text w
   \<and> stderr_lines (perror ''failed to read data'' w)
        = stderr_lines w @ [Perror ''failed to read data'' (errno w)]
   \<and> EXIT_FAILURE \<noteq> 0"
proof -
  have u: "unat (8192 :: size_t) = 8192" by simp
  have a: "0 \<le> retry \<and> alloc len \<and> declared_size len (fst (q sv (unat len))) < 4
      \<longrightarrow> query_loop q alloc retry len sv att
          = \<lparr>q_buf = Null, q_len = len, q_service = snd (q sv (unat len)), q_attempts = att @ [len],
             q_bad_alloc = False\<rparr>"
    using query_loop_degenerate[of retry alloc len q sv att] by blast
  have n: "declared_size len b < 4
      \<longleftrightarrow> - 1 \<le> atol (c_str (terminated len b)) \<and> atol (c_str (terminated len b)) \<le> 2"
    by (rule degenerate_counts)
  have b: "q_buf (query_loop q alloc 32 8192 sv []) = Null
      \<longleftrightarrow> admin_query q alloc sv w = Ended EXIT_FAILURE (perror ''failed to read data'' w)"
    using query_loop_thrown_buf[of q alloc 32 8192 sv "[]"]
    by (auto simp: admin_query_def Let_def EXIT_FAILURE_def split: bufptr.splits if_splits)
  have c: "alloc 8192 \<and> declared_size 8192 (fst (q sv 8192)) < 4
      \<longrightarrow> admin_query q alloc sv w = Ended EXIT_FAILURE (perror ''failed to read data'' w)
        \<and> q_attempts (query_loop q alloc 32 8192 sv []) = [8192]"
    using query_loop_degenerate[of 32 alloc 8192 q sv "[]"]
    by (simp add: admin_query_def Let_def u)
  have d: "stdout_text (perror ''failed to read data'' w) = stdout_text w
     \<and> stderr_lines (perror ''failed to read data'' w)
        = stderr_lines w @ [Perror ''failed to read data'' (errno w)]
     \<and> EXIT_FAILURE \<noteq> 0"
    by (simp add: perror_def EXIT_FAILURE_def)
  from a n b c d show ?thesis by blast
qed

lemmas atol_eval = atol_def isspace_c_def isdigit_c_def LONG_MAX_def LONG_MIN_def NUL_def

lemma atol_9000:
  assumes "11 < unat len"
  shows "atol (c_str (terminated len (fst (svc_9000 sv n)))) = 9000"
proof -
  let ?b = "''9000'' @ [CHR 0x0A] @ ''stats'' @ [CHR 0x0C]"
  have "NUL \<notin> set ?b" by (simp add: NUL_def)
  moreover have "length ?b < unat len" using assms by simp
  ultimately have "c_str (terminated len ?b) = ?b" by (rule c_str_terminated)
  moreover have "atol ?b = 9000" by (simp add: atol_eval)
  ultimately show ?thesis by (simp add: svc_9000_def)
qed

lemma declared_9000:
  assumes "11 < unat len"
  shows "declared_size len (fst (svc_9000 sv n)) = 9001"
  using atol_9000[OF assms, of sv n] by (simp add: declared_size_def)

lemma declared_zero:
  assumes "1 < unat len"
  shows "atol (c_str (terminated len (fst (svc_zero sv n)))) = 0"
    and "declared_size len (fst (svc_zero sv n)) = 1"
proof -
  have "NUL \<notin> set ''0''" by (simp add: NUL_def)
  moreover have "length ''0'' < unat len" using assms by simp
  ultimately have c: "c_str (terminated len ''0'') = ''0''" by (rule c_str_terminated)
  have a: "atol ''0'' = 0" by (simp add: atol_eval)
  from c a show "atol (c_str (terminated len (fst (svc_zero sv n)))) = 0" by (simp add: svc_zero_def)
  from c a show "declared_size len (fst (svc_zero sv n)) = 1" by (simp add: declared_size_def svc_zero_def)
qed

text \<open>A service that always answers with the count 9000: the sizes are 8192 and 9001.\<close>

theorem query_two_attempts_witness:
  "atol (c_str (terminated 8192 (fst (svc_9000 () 8192)))) = 9000
   \<and> atol (c_str (terminated 9001 (fst (svc_9000 (snd (svc_9000 () 8192)) (unat (9001 :: size_t)))))) = 9000
   \<and> (8192 :: int) \<le> 9000 \<and> alloc_all 8192 \<and> alloc_all 9001
   \<and> q_attempts (query_loop svc_9000 alloc_all 32 8192 () []) = [8192, 9001]
   \<and> q_len (query_loop svc_9000 alloc_all 32 8192 () []) = 9001
   \<and> length (q_attempts (query_loop svc_9000 alloc_all 32 8192 () [])) \<le> 2"
proof -
  have c1: "atol (c_str (terminated 8192 (fst (svc_9000 () 8192)))) = 9000" by (rule atol_9000) simp
  have c2: "atol (c_str (terminated 9001 (fst (svc_9000 (snd (svc_9000 () 8192)) (unat (9001 :: size_t)))))) = 9000"
    by (rule atol_9000) simp
  have c2': "atol (c_str (terminated (word_of_int (9000 + 1))
                     (fst (svc_9000 (snd (svc_9000 () 8192)) (unat (word_of_int (9000 + 1) :: size_t)))))) = 9000"
    by (rule atol_9000) simp
  have big: "(8192 :: int) \<le> 9000" by simp
  have al: "alloc_all 8192 \<and> alloc_all 9001" by (simp add: alloc_all_def)
  have al': "alloc_all 8192 \<and> alloc_all (word_of_int (9000 + 1))" by (simp add: alloc_all_def)
  from query_two_attempts[OF c1 c2' big, where alloc = alloc_all] al'
  have "query_loop svc_9000 alloc_all 32 8192 () []
            = \<lparr>q_buf = Array (terminated (word_of_int (9000 + 1))
                  (fst (svc_9000 (snd (svc_9000 () 8192)) (unat (word_of_int (9000 + 1) :: size_t))))),
               q_len = word_of_int (9000 + 1),
               q_service = snd (svc_9000 (snd (svc_9000 () 8192)) (unat (word_of_int (9000 + 1) :: size_t))),
               q_attempts = [8192, word_of_int (9000 + 1)], q_bad_alloc = False\<rparr>"
    by blast
  then have "q_attempts (query_loop svc_9000 alloc_all 32 8192 () []) = [8192, 9001]
     \<and> q_len (query_loop svc_9000 alloc_all 32 8192 () []) = 9001" by simp
  with c1 c2 big al show ?thesis by simp
qed

text \<open>
  Claim C4 as it is written fails where it has the second attempt at exactly the declared
  size: for the answers that declare 9000 the loop asks with 8192 and then with 9001.
\<close>

theorem second_attempt_counterexample:
  "atol (c_str (terminated 8192 (fst (svc_9000 () 8192)))) = 9000
   \<and> atol (c_str (terminated 9001 (fst (svc_9000 () 9001)))) = 9000
   \<and> q_attempts (query_loop svc_9000 alloc_all 32 8192 () []) = [8192, 9001]"
proof -
  have c1: "atol (c_str (terminated 8192 (fst (svc_9000 () 8192)))) = 9000" by (rule atol_9000) simp
  have c2: "atol (c_str (terminated 9001 (fst (svc_9000 () 9001)))) = 9000" by (rule atol_9000) simp
  have d1: "declared_size 8192 (fst (svc_9000 () 8192)) = 9001" by (rule declared_9000) simp
  have d2: "declared_size 9001 (fst (svc_9000 (snd (svc_9000 () 8192)) (unat (9001 :: size_t)))) = 9001"
    by (rule declared_9000) simp
  have big: "(8192 :: size_t) < 9001" by simp
  have al: "alloc_all 8192 \<and> alloc_all 9001" by (simp add: alloc_all_def)
  from query_loop_same_size(1)[OF d1 d2 big, of alloc_all] al
  have "q_attempts (query_loop svc_9000 alloc_all 32 8192 () []) = [8192, 9001]" by simp
  with c1 c2 show ?thesis by simp
qed

text \<open>
  Claim C5 as it is written fails: for the answer \<open>0\<close> the count is 0 and the size 1, and
  the process ends with status 1 after \<open>failed to read data\<close>, as the loop leaves \<^verbatim>\<open>buf\<close>
  at \<^verbatim>\<open>NULL\<close> for the test that follows it.
\<close>

theorem degenerate_exit_counterexample:
  "atol (c_str (terminated 8192 (fst (svc_zero () 8192)))) = 0
   \<and> declared_size 8192 (fst (svc_zero () 8192)) = 1
   \<and> admin_query svc_zero alloc_all () world_out
       = Ended 1 (perror ''failed to read data'' world_out)"
proof -
  have u: "unat (8192 :: size_t) = 8192" by simp
  have d: "atol (c_str (terminated 8192 (fst (svc_zero () 8192)))) = 0"
    "declared_size 8192 (fst (svc_zero () 8192)) = 1"
    by (rule declared_zero, simp)+
  have "query_loop svc_zero alloc_all 32 8192 () []
      = \<lparr>q_buf = Null, q_len = 8192, q_service = snd (svc_zero () (unat (8192 :: size_t))),
         q_attempts = [] @ [8192], q_bad_alloc = False\<rparr>"
    by (rule query_loop_degenerate) (simp_all add: alloc_all_def d(2))
  then have "admin_query svc_zero alloc_all () world_out
       = Ended 1 (perror ''failed to read data'' world_out)"
    by (simp add: admin_query_def EXIT_FAILURE_def Let_def)
  with d show ?thesis by simp
qed

theorem degenerate_answer_fails_witness:
  "(0::int) \<le> 32 \<and> alloc_all 8192 \<and> declared_size 8192 (fst (svc_zero () (unat (8192 :: size_t)))) < 4
   \<and> atol (c_str (terminated 8192 (fst (svc_zero () 8192)))) = 0
   \<and> query_loop svc_zero alloc_all 32 8192 () []
       = \<lparr>q_buf = Null, q_len = 8192, q_service = snd (svc_zero () (unat (8192 :: size_t))),
          q_attempts = [] @ [8192], q_bad_alloc = False\<rparr>
   \<and> admin_query svc_zero alloc_all () world_out
       = Ended EXIT_FAILURE (perror ''failed to read data'' world_out)
   \<and> q_attempts (query_loop svc_zero alloc_all 32 8192 () []) = [8192]
   \<and> stdout_text (perror ''failed to read data'' world_out) = []
   \<and> stderr_lines (perror ''failed to read data'' world_out) = [Perror ''failed to read data'' 0]"
proof -
  have u: "unat (8192 :: size_t) = 8192" by simp
  have z: "atol (c_str (terminated 8192 (fst (svc_zero () 8192)))) = 0" by (rule declared_zero) simp
  note T = degenerate_answer_fails[where retry = 32 and alloc = alloc_all and len = 8192
      and q = svc_zero and sv = "()" and att = "[]" and w = world_out
      and b = "fst (svc_zero () 8192)"]
  have d: "declared_size 8192 (fst (svc_zero () 8192)) < 4" using T z by simp
  have h: "(0::int) \<le> 32 \<and> alloc_all 8192 \<and> declared_size 8192 (fst (svc_zero () (unat (8192 :: size_t)))) < 4"
    using d by (simp add: alloc_all_def)
  have h': "alloc_all 8192 \<and> declared_size 8192 (fst (svc_zero () 8192)) < 4"
    using d by (simp add: alloc_all_def)
  have w: "stdout_text world_out = [] \<and> stderr_lines world_out = [] \<and> errno world_out = 0"
    by (simp add: world_out_def)
  have a: "query_loop svc_zero alloc_all 32 8192 () []
       = \<lparr>q_buf = Null, q_len = 8192, q_service = snd (svc_zero () (unat (8192 :: size_t))),
          q_attempts = [] @ [8192], q_bad_alloc = False\<rparr>"
    using T h by blast
  have b: "admin_query svc_zero alloc_all () world_out
       = Ended EXIT_FAILURE (perror ''failed to read data'' world_out)
     \<and> q_attempts (query_loop svc_zero alloc_all 32 8192 () []) = [8192]"
    using T h' by blast
  have c: "stdout_text (perror ''failed to read data'' world_out) = []
     \<and> stderr_lines (perror ''failed to read data'' world_out) = [Perror ''failed to read data'' 0]"
    using T w by simp
  from h z a b c show ?thesis by blast
qed

end
